theory Spec2Isabelle
  imports Complex_Main "HOL-Library.Word" "HOL-Library.Signed_Division"
begin

section \<open>Machine types\<close>

text \<open>
  The sources use \<open>double\<close> (\<open>value_type\<close>), \<open>std::size_t\<close> (\<open>size_type\<close>) and
  \<open>std::ptrdiff_t\<close>.  \<open>std::size_t\<close> is a 64-bit word read through \<open>unat\<close>,
  \<open>std::ptrdiff_t\<close> is a 64-bit word read through \<open>sint\<close>; a conversion between the two
  keeps the bits.  An operation whose behaviour C++ leaves undefined (signed overflow, a
  floating value that does not fit the integer type, an access beyond the end of a vector)
  has the result \<open>None\<close>.

  The type \<open>double\<close> below is IEEE 754 binary64 with rounding to nearest, ties to even:
  the arithmetic of the program.  The constructor of the grid, \<open>wrap_position\<close>,
  \<open>cell_index\<close>, the cell accessors, \<open>interpolation_weights\<close> and \<open>Field::interpolate\<close> are
  embedded over it, with the suffix \<open>_ieee\<close>, and what is proved of them holds with
  rounding, overflow, underflow and NaN.  The type \<open>value_type\<close> is \<open>real\<close>: the reading in
  exact arithmetic, kept for the deposition, whose conservation law the specification
  states under exact arithmetic, and for the particle container, whose statements use no
  property of the arithmetic.
\<close>

type_synonym value_type = real
type_synonym size_type = "64 word"
type_synonym ptrdiff_t = "64 word"

definition PTRDIFF_MAX :: int where
  "PTRDIFF_MAX = 2 ^ 63 - 1"

definition PTRDIFF_MIN :: int where
  "PTRDIFF_MIN = - (2 ^ 63)"

definition in_ptrdiff :: "int \<Rightarrow> bool" where
  "in_ptrdiff k \<longleftrightarrow> PTRDIFF_MIN \<le> k \<and> k \<le> PTRDIFF_MAX"

text \<open>Rounding toward zero, as a conversion from \<open>double\<close> to an integer type does.\<close>

definition trunc :: "real \<Rightarrow> int" where
  "trunc r = (if 0 \<le> r then \<lfloor>r\<rfloor> else \<lceil>r\<rceil>)"

text \<open>\<open>static_cast<std::ptrdiff_t>(r)\<close>: undefined when the truncated value does not fit.\<close>

definition to_ptrdiff :: "real \<Rightarrow> ptrdiff_t option" where
  "to_ptrdiff r = (if in_ptrdiff (trunc r) then Some (word_of_int (trunc r)) else None)"

text \<open>\<open>std::fmod x y\<close> for \<open>y \<noteq> 0\<close>: the remainder of the division truncated toward zero;
  it has the sign of \<open>x\<close>.\<close>

definition fmod :: "real \<Rightarrow> real \<Rightarrow> real" where
  "fmod x y = x - of_int (trunc (x / y)) * y"

text \<open>Signed \<open>%\<close> and \<open>+\<close> on \<open>std::ptrdiff_t\<close>.  The remainder is undefined for a zero
  divisor and when the quotient overflows; the sum is undefined when it overflows.\<close>

definition ptrdiff_rem :: "ptrdiff_t \<Rightarrow> ptrdiff_t \<Rightarrow> ptrdiff_t option" where
  "ptrdiff_rem i n =
     (if sint n = 0 \<or> (sint i = PTRDIFF_MIN \<and> sint n = - 1) then None
      else Some (word_of_int (sint i smod sint n)))"

definition ptrdiff_add :: "ptrdiff_t \<Rightarrow> ptrdiff_t \<Rightarrow> ptrdiff_t option" where
  "ptrdiff_add i n =
     (if in_ptrdiff (sint i + sint n) then Some (word_of_int (sint i + sint n)) else None)"

section \<open>IEEE 754 binary64\<close>

text \<open>
  A \<open>double\<close> is a finite value, an infinity or NaN.  The two zeros are one value: the
  sign of a zero shows only in a division by it, and the divisors of this program that
  can be zero (the converted cell count and \<open>dx_\<close>) are never negative, so a zero divisor is
  taken as \<open>+0\<close>.  Expressions are evaluated in binary64, one rounding for each operation
  (no extended precision and no fused multiply-add).
\<close>

datatype double = Finite real | PInf | NInf | NaN

text \<open>Rounding a real to the nearest integer, ties to even.\<close>

definition round_even :: "real \<Rightarrow> int" where
  "round_even y =
     (let f = \<lfloor>y\<rfloor>; d = y - of_int f
      in if d < 1 / 2 then f else if 1 / 2 < d then f + 1 else if even f then f else f + 1)"

text \<open>The binary exponent of a real, not below that of the subnormal numbers, and the
  spacing of the doubles at that exponent (53 significant bits).\<close>

definition exponent :: "real \<Rightarrow> int" where
  "exponent r = (if r = 0 then - 1022 else max (- 1022) \<lfloor>log 2 \<bar>r\<bar>\<rfloor>)"

definition quantum :: "real \<Rightarrow> real" where
  "quantum r = 2 powi (exponent r - 52)"

definition overflow_threshold :: real where
  "overflow_threshold = 2 powi 1024"

text \<open>\<open>rd r\<close> is the double nearest to \<open>r\<close>: round to a multiple of the spacing; a result of
  magnitude \<open>2\<^sup>1\<^sup>0\<^sup>2\<^sup>4\<close> or more is an infinity.\<close>

definition rd :: "real \<Rightarrow> double" where
  "rd r =
     (let v = of_int (round_even (r / quantum r)) * quantum r
      in if overflow_threshold \<le> \<bar>v\<bar> then (if 0 < r then PInf else NInf) else Finite v)"

instantiation double :: "{zero, one, uminus, plus, times, ord}"
begin

definition zero_double :: double where
  "zero_double = Finite 0"

definition one_double :: double where
  "one_double = Finite 1"

fun uminus_double :: "double \<Rightarrow> double" where
  "uminus_double (Finite a) = Finite (- a)"
| "uminus_double PInf = NInf"
| "uminus_double NInf = PInf"
| "uminus_double NaN = NaN"

fun plus_double :: "double \<Rightarrow> double \<Rightarrow> double" where
  "plus_double (Finite a) (Finite b) = rd (a + b)"
| "plus_double NaN b = NaN"
| "plus_double a NaN = NaN"
| "plus_double PInf NInf = NaN"
| "plus_double NInf PInf = NaN"
| "plus_double PInf b = PInf"
| "plus_double a PInf = PInf"
| "plus_double NInf b = NInf"
| "plus_double a NInf = NInf"

fun times_double :: "double \<Rightarrow> double \<Rightarrow> double" where
  "times_double (Finite a) (Finite b) = rd (a * b)"
| "times_double NaN b = NaN"
| "times_double a NaN = NaN"
| "times_double (Finite a) PInf = (if a = 0 then NaN else if 0 < a then PInf else NInf)"
| "times_double (Finite a) NInf = (if a = 0 then NaN else if 0 < a then NInf else PInf)"
| "times_double PInf (Finite b) = (if b = 0 then NaN else if 0 < b then PInf else NInf)"
| "times_double NInf (Finite b) = (if b = 0 then NaN else if 0 < b then NInf else PInf)"
| "times_double PInf PInf = PInf"
| "times_double NInf NInf = PInf"
| "times_double PInf NInf = NInf"
| "times_double NInf PInf = NInf"

text \<open>A comparison with NaN is false.\<close>

fun less_double :: "double \<Rightarrow> double \<Rightarrow> bool" where
  "less_double (Finite a) (Finite b) \<longleftrightarrow> a < b"
| "less_double NaN b \<longleftrightarrow> False"
| "less_double a NaN \<longleftrightarrow> False"
| "less_double a NInf \<longleftrightarrow> False"
| "less_double PInf b \<longleftrightarrow> False"
| "less_double NInf b \<longleftrightarrow> True"
| "less_double a PInf \<longleftrightarrow> True"

fun less_eq_double :: "double \<Rightarrow> double \<Rightarrow> bool" where
  "less_eq_double (Finite a) (Finite b) \<longleftrightarrow> a \<le> b"
| "less_eq_double NaN b \<longleftrightarrow> False"
| "less_eq_double a NaN \<longleftrightarrow> False"
| "less_eq_double NInf b \<longleftrightarrow> True"
| "less_eq_double a PInf \<longleftrightarrow> True"
| "less_eq_double a NInf \<longleftrightarrow> False"
| "less_eq_double PInf b \<longleftrightarrow> False"

instance ..

end

instantiation double :: minus
begin

definition minus_double :: "double \<Rightarrow> double \<Rightarrow> double" where
  "minus_double a b = a + (- b)"

instance ..

end

instantiation double :: inverse
begin

fun divide_double :: "double \<Rightarrow> double \<Rightarrow> double" where
  "divide_double (Finite a) (Finite b) =
     (if b = 0 then (if a = 0 then NaN else if 0 < a then PInf else NInf) else rd (a / b))"
| "divide_double NaN b = NaN"
| "divide_double a NaN = NaN"
| "divide_double (Finite a) PInf = Finite 0"
| "divide_double (Finite a) NInf = Finite 0"
| "divide_double PInf (Finite b) = (if 0 \<le> b then PInf else NInf)"
| "divide_double NInf (Finite b) = (if 0 \<le> b then NInf else PInf)"
| "divide_double a b = NaN"

fun inverse_double :: "double \<Rightarrow> double" where
  "inverse_double (Finite b) = (if b = 0 then PInf else rd (1 / b))"
| "inverse_double PInf = Finite 0"
| "inverse_double NInf = Finite 0"
| "inverse_double NaN = NaN"

instance ..

end

text \<open>\<open>std::fmod\<close> on doubles: its result is exact.\<close>

fun dfmod :: "double \<Rightarrow> double \<Rightarrow> double" where
  "dfmod (Finite a) (Finite b) = (if b = 0 then NaN else Finite (fmod a b))"
| "dfmod (Finite a) PInf = Finite a"
| "dfmod (Finite a) NInf = Finite a"
| "dfmod a b = NaN"

text \<open>\<open>static_cast<double>\<close> of a \<open>std::size_t\<close> and \<open>static_cast<std::ptrdiff_t>\<close> of a
  double; the latter is undefined for an infinity, for NaN and beyond the range.\<close>

definition of_size :: "size_type \<Rightarrow> double" where
  "of_size n = rd (real (unat n))"

definition double_to_ptrdiff :: "double \<Rightarrow> ptrdiff_t option" where
  "double_to_ptrdiff a = (case a of Finite r \<Rightarrow> to_ptrdiff r | _ \<Rightarrow> None)"

section \<open>Grid\<close>

datatype BoundaryCondition = Periodic

datatype exception = invalid_argument string | bad_alloc | length_error

text \<open>The class \<open>Grid\<close>.  The record is the same for both readings of \<open>double\<close>: \<open>Grid\<close>
  holds reals, \<open>Grid_ieee\<close> holds binary64 values.\<close>

record 'a Grid_of =
  n_cells :: size_type
  x_min :: 'a
  x_max :: 'a
  length_g :: 'a
  dx :: 'a
  inv_dx :: 'a
  boundary_condition :: BoundaryCondition

type_synonym Grid = "value_type Grid_of"
type_synonym Grid_ieee = "double Grid_of"

subsection \<open>The grid in binary64\<close>

text \<open>The members as the program computes them: every operator is the rounded one, \<open>>=\<close>
  and \<open><\<close> are the comparisons of IEEE 754, which are false when an operand is NaN.  In the
  constructor the member initialisers run first, then the two checks throw.\<close>

definition Grid_ctor_ieee ::
  "size_type \<Rightarrow> double \<Rightarrow> double \<Rightarrow> BoundaryCondition \<Rightarrow> exception + Grid_ieee" where
  "Grid_ctor_ieee n lo hi bc =
     (let g = \<lparr> n_cells = n, x_min = lo, x_max = hi, length_g = hi - lo,
                dx = (hi - lo) / of_size n,
                inv_dx = 1 / ((hi - lo) / of_size n),
                boundary_condition = bc \<rparr>
      in if n = 0 then Inl (invalid_argument ''Grid must have at least one cell'')
         else if lo \<ge> hi then Inl (invalid_argument ''x_min must be less than x_max'')
         else Inr g)"

text \<open>The three cell accessors assert \<open>i < n_cells_\<close>; a failed assertion is \<open>None\<close>.\<close>

definition cell_center_ieee :: "Grid_ieee \<Rightarrow> size_type \<Rightarrow> double option" where
  "cell_center_ieee g i =
     (if i < n_cells g then Some (x_min g + (of_size i + Finite (1 / 2)) * dx g) else None)"

definition cell_left_ieee :: "Grid_ieee \<Rightarrow> size_type \<Rightarrow> double option" where
  "cell_left_ieee g i = (if i < n_cells g then Some (x_min g + of_size i * dx g) else None)"

definition cell_right_ieee :: "Grid_ieee \<Rightarrow> size_type \<Rightarrow> double option" where
  "cell_right_ieee g i =
     (if i < n_cells g then Some (x_min g + of_size (i + 1) * dx g) else None)"

definition wrap_position_ieee :: "Grid_ieee \<Rightarrow> double \<Rightarrow> double" where
  "wrap_position_ieee g x =
     (if boundary_condition g = Periodic then
        (let x_rel = x - x_min g;
             x_rel = dfmod x_rel (length_g g);
             x_rel = (if x_rel < 0 then x_rel + length_g g else x_rel)
         in x_min g + x_rel)
      else x)"

definition cell_index_ieee :: "Grid_ieee \<Rightarrow> double \<Rightarrow> size_type option" where
  "cell_index_ieee g x =
     (let x_wrapped = wrap_position_ieee g x in
      case double_to_ptrdiff ((x_wrapped - x_min g) * inv_dx g) of
        None \<Rightarrow> None
      | Some idx \<Rightarrow>
          (let idx = (if idx <s 0 then 0 else idx);
               idx = (if n_cells g \<le> idx then n_cells g - 1 else idx)
           in Some idx))"

definition interpolation_weights_ieee :: "Grid_ieee \<Rightarrow> double \<Rightarrow> (double \<times> double) option" where
  "interpolation_weights_ieee g x =
     (let x_wrapped = wrap_position_ieee g x in
      case cell_index_ieee g x_wrapped of
        None \<Rightarrow> None
      | Some idx \<Rightarrow>
          (case cell_left_ieee g idx of
             None \<Rightarrow> None
           | Some x_left \<Rightarrow>
               (let right_weight = (x_wrapped - x_left) * inv_dx g;
                    left_weight = 1 - right_weight
                in Some (left_weight, right_weight))))"

text \<open>\<open>wrap_index\<close> computes on integers only; it is the same for both readings.\<close>

definition wrap_index :: "'a Grid_of \<Rightarrow> ptrdiff_t \<Rightarrow> size_type option" where
  "wrap_index g i =
     (if boundary_condition g = Periodic then
        (let n = n_cells g in
         case ptrdiff_rem i n of
           None \<Rightarrow> None
         | Some i \<Rightarrow> if i <s 0 then ptrdiff_add i n else Some i)
      else if i <s 0 then Some 0
      else if n_cells g \<le> i then Some (n_cells g - 1)
      else Some i)"

definition contains_ieee :: "Grid_ieee \<Rightarrow> double \<Rightarrow> bool" where
  "contains_ieee g x \<longleftrightarrow> x \<ge> x_min g \<and> x < x_max g"

subsection \<open>The grid in exact arithmetic\<close>

text \<open>The constructor, \<open>wrap_position\<close> and \<open>cell_index\<close> with every operation on \<open>double\<close>
  read as the operation on the reals.  This is not what the program computes: it is the
  arithmetic under which the specification states the conservation of the deposited
  weight, and these three functions are used for that statement and, the constructor
  only, for \<open>wrap_index\<close>, which does not depend on the arithmetic.\<close>

definition Grid_ctor ::
  "size_type \<Rightarrow> value_type \<Rightarrow> value_type \<Rightarrow> BoundaryCondition \<Rightarrow> exception + Grid" where
  "Grid_ctor n lo hi bc =
     (let g = \<lparr> n_cells = n, x_min = lo, x_max = hi, length_g = hi - lo,
                dx = (hi - lo) / real (unat n),
                inv_dx = 1 / ((hi - lo) / real (unat n)),
                boundary_condition = bc \<rparr>
      in if n = 0 then Inl (invalid_argument ''Grid must have at least one cell'')
         else if lo \<ge> hi then Inl (invalid_argument ''x_min must be less than x_max'')
         else Inr g)"

definition wrap_position :: "Grid \<Rightarrow> value_type \<Rightarrow> value_type" where
  "wrap_position g x =
     (if boundary_condition g = Periodic then
        (let x_rel = x - x_min g;
             x_rel = fmod x_rel (length_g g);
             x_rel = (if x_rel < 0 then x_rel + length_g g else x_rel)
         in x_min g + x_rel)
      else x)"

definition cell_index :: "Grid \<Rightarrow> value_type \<Rightarrow> size_type option" where
  "cell_index g x =
     (let x_wrapped = wrap_position g x in
      case to_ptrdiff ((x_wrapped - x_min g) * inv_dx g) of
        None \<Rightarrow> None
      | Some idx \<Rightarrow>
          (let idx = (if idx <s 0 then 0 else idx);
               idx = (if n_cells g \<le> idx then n_cells g - 1 else idx)
           in Some idx))"

text \<open>The class invariant under exact arithmetic.\<close>

definition Grid_valid :: "Grid \<Rightarrow> bool" where
  "Grid_valid g \<longleftrightarrow>
     1 \<le> unat (n_cells g) \<and> x_min g < x_max g \<and> 0 < dx g \<and>
     length_g g = x_max g - x_min g \<and> dx g = length_g g / real (unat (n_cells g)) \<and>
     inv_dx g = 1 / dx g"

section \<open>std::vector<double>\<close>

text \<open>
  The containers of the sources are \<open>std::vector<double>\<close>.  The vector is modelled after
  the C++ standard: its elements, its capacity, the strong exception guarantee of
  \<open>reserve\<close>, \<open>resize\<close> and \<open>push_back\<close> on a trivially copyable element type (a
  failed call leaves the vector as it was), and the exceptions \<open>std::bad_alloc\<close> and
  \<open>std::length_error\<close>.  Where the standard leaves a choice the model follows libstdc++ on
  an LP64 platform: \<open>max_size()\<close> is \<open>PTRDIFF_MAX / sizeof(double)\<close>, \<open>reserve n\<close> gives
  the capacity \<open>n\<close>, and a growing vector takes the capacity \<open>size + max size k\<close> for
  \<open>k\<close> new elements.

  Whether an allocation succeeds is not decided by the program.  The heap is therefore a
  list of outcomes, one for each coming allocation request, in order; when the list is
  used up every further request succeeds.  A statement for every heap holds whatever the
  allocator does.  Sizes of vectors are natural numbers: a request beyond \<open>max_size\<close> fails,
  so no size leaves the range of \<open>std::size_t\<close>.
\<close>

type_synonym heap = "bool list"

fun allocate :: "heap \<Rightarrow> bool \<times> heap" where
  "allocate [] = (True, [])"
| "allocate (b # h) = (b, h)"

definition max_size :: nat where
  "max_size = (2 ^ 63 - 1) div 8"

record 'a vector_of =
  elems :: "'a list"
  capacity :: nat

type_synonym vector = "value_type vector_of"

definition vector_empty :: vector where
  "vector_empty = \<lparr> elems = [], capacity = 0 \<rparr>"

definition vector_size :: "'a vector_of \<Rightarrow> nat" where
  "vector_size a = List.length (elems a)"

text \<open>\<open>std::vector<double>(n, val)\<close>.\<close>

definition vector_ctor :: "heap \<Rightarrow> nat \<Rightarrow> value_type \<Rightarrow> heap \<times> (exception + vector)" where
  "vector_ctor h n val =
     (if max_size < n then (h, Inl length_error)
      else if n = 0 then (h, Inr vector_empty)
      else case allocate h of
             (True, h') \<Rightarrow> (h', Inr \<lparr> elems = replicate n val, capacity = n \<rparr>)
           | (False, h') \<Rightarrow> (h', Inl bad_alloc))"

text \<open>The mutating members return the exception thrown, if any, and the vector and the
  heap they leave behind.\<close>

definition vector_reserve :: "heap \<Rightarrow> vector \<Rightarrow> nat \<Rightarrow> heap \<times> exception option \<times> vector" where
  "vector_reserve h a n =
     (if max_size < n then (h, Some length_error, a)
      else if n \<le> capacity a then (h, None, a)
      else case allocate h of
             (True, h') \<Rightarrow> (h', None, a\<lparr> capacity := n \<rparr>)
           | (False, h') \<Rightarrow> (h', Some bad_alloc, a))"

definition vector_resize ::
  "heap \<Rightarrow> vector \<Rightarrow> nat \<Rightarrow> value_type \<Rightarrow> heap \<times> exception option \<times> vector" where
  "vector_resize h a n val =
     (let sz = vector_size a in
      if n \<le> sz then (h, None, a\<lparr> elems := take n (elems a) \<rparr>)
      else if n \<le> capacity a then (h, None, a\<lparr> elems := elems a @ replicate (n - sz) val \<rparr>)
      else if max_size < n then (h, Some length_error, a)
      else case allocate h of
             (True, h') \<Rightarrow>
               (h', None, \<lparr> elems = elems a @ replicate (n - sz) val,
                             capacity = min max_size (sz + max sz (n - sz)) \<rparr>)
           | (False, h') \<Rightarrow> (h', Some bad_alloc, a))"

definition vector_push_back ::
  "heap \<Rightarrow> vector \<Rightarrow> value_type \<Rightarrow> heap \<times> exception option \<times> vector" where
  "vector_push_back h a val =
     (let sz = vector_size a in
      if sz < capacity a then (h, None, a\<lparr> elems := elems a @ [val] \<rparr>)
      else if sz = max_size then (h, Some length_error, a)
      else case allocate h of
             (True, h') \<Rightarrow>
               (h', None, \<lparr> elems = elems a @ [val],
                             capacity = min max_size (sz + max sz 1) \<rparr>)
           | (False, h') \<Rightarrow> (h', Some bad_alloc, a))"

definition vector_clear :: "vector \<Rightarrow> vector" where
  "vector_clear a = a\<lparr> elems := [] \<rparr>"

text \<open>\<open>pop_back\<close> on an empty vector is undefined.\<close>

definition vector_pop_back :: "vector \<Rightarrow> vector option" where
  "vector_pop_back a = (if elems a = [] then None else Some (a\<lparr> elems := butlast (elems a) \<rparr>))"

text \<open>\<open>operator[]\<close>: reading beyond the end is undefined.\<close>

definition vector_at :: "'a vector_of \<Rightarrow> nat \<Rightarrow> 'a option" where
  "vector_at a i = (if i < vector_size a then Some (elems a ! i) else None)"


section \<open>Field\<close>

text \<open>A field points to its grid and does not own it.  A grid never changes after its
  construction, so the model keeps the grid's value in the place of the pointer.\<close>

record 'a Field_of =
  grid :: "'a Grid_of"
  data :: "'a vector_of"

type_synonym Field_ieee = "double Field_of"








text \<open>\<open>Field::interpolate\<close> in binary64.\<close>

definition Field_interpolate_ieee :: "Field_ieee \<Rightarrow> double \<Rightarrow> double option" where
  "Field_interpolate_ieee fld x =
     (case cell_index_ieee (grid fld) x of
        None \<Rightarrow> None
      | Some idx \<Rightarrow>
     (case interpolation_weights_ieee (grid fld) x of
        None \<Rightarrow> None
      | Some (w_left, w_right) \<Rightarrow>
     (case ptrdiff_add idx 1 of
        None \<Rightarrow> None
      | Some next \<Rightarrow>
     (case wrap_index (grid fld) next of
        None \<Rightarrow> None
      | Some idx_next \<Rightarrow>
     (case (vector_at (data fld) (unat idx), vector_at (data fld) (unat idx_next)) of
        (Some a, Some b) \<Rightarrow> Some (w_left * a + w_right * b)
      | _ \<Rightarrow> None)))))"


section \<open>Particles\<close>

record Particles =
  x_vec :: vector
  v_vec :: vector
  f_vec :: vector

definition Particles_default :: Particles where
  "Particles_default = \<lparr> x_vec = vector_empty, v_vec = vector_empty, f_vec = vector_empty \<rparr>"

definition Particles_size :: "Particles \<Rightarrow> nat" where
  "Particles_size p = vector_size (x_vec p)"

definition Particles_capacity :: "Particles \<Rightarrow> nat" where
  "Particles_capacity p = capacity (x_vec p)"

definition Particles_empty :: "Particles \<Rightarrow> bool" where
  "Particles_empty p \<longleftrightarrow> elems (x_vec p) = []"

text \<open>Each member works on \<open>x_\<close>, then \<open>v_\<close>, then \<open>f_\<close>; an exception leaves the
  member at once.\<close>

definition Particles_reserve :: "heap \<Rightarrow> Particles \<Rightarrow> nat \<Rightarrow> heap \<times> exception option \<times> Particles" where
  "Particles_reserve h p n =
     (case vector_reserve h (x_vec p) n of
        (h1, Some e, a) \<Rightarrow> (h1, Some e, p\<lparr> x_vec := a \<rparr>)
      | (h1, None, a) \<Rightarrow>
     (case vector_reserve h1 (v_vec p) n of
        (h2, Some e, b) \<Rightarrow> (h2, Some e, p\<lparr> x_vec := a, v_vec := b \<rparr>)
      | (h2, None, b) \<Rightarrow>
     (case vector_reserve h2 (f_vec p) n of
        (h3, r, c) \<Rightarrow> (h3, r, p\<lparr> x_vec := a, v_vec := b, f_vec := c \<rparr>))))"

definition Particles_resize_fill ::
  "heap \<Rightarrow> Particles \<Rightarrow> nat \<Rightarrow> value_type \<Rightarrow> value_type \<Rightarrow> value_type
     \<Rightarrow> heap \<times> exception option \<times> Particles" where
  "Particles_resize_fill h p n x_val v_val f_val =
     (case vector_resize h (x_vec p) n x_val of
        (h1, Some e, a) \<Rightarrow> (h1, Some e, p\<lparr> x_vec := a \<rparr>)
      | (h1, None, a) \<Rightarrow>
     (case vector_resize h1 (v_vec p) n v_val of
        (h2, Some e, b) \<Rightarrow> (h2, Some e, p\<lparr> x_vec := a, v_vec := b \<rparr>)
      | (h2, None, b) \<Rightarrow>
     (case vector_resize h2 (f_vec p) n f_val of
        (h3, r, c) \<Rightarrow> (h3, r, p\<lparr> x_vec := a, v_vec := b, f_vec := c \<rparr>))))"

text \<open>\<open>resize(n)\<close> value-initialises the new elements.\<close>

definition Particles_resize :: "heap \<Rightarrow> Particles \<Rightarrow> nat \<Rightarrow> heap \<times> exception option \<times> Particles" where
  "Particles_resize h p n = Particles_resize_fill h p n 0 0 0"

definition Particles_clear :: "Particles \<Rightarrow> Particles" where
  "Particles_clear p =
     p\<lparr> x_vec := vector_clear (x_vec p), v_vec := vector_clear (v_vec p),
        f_vec := vector_clear (f_vec p) \<rparr>"

definition Particles_push_back ::
  "heap \<Rightarrow> Particles \<Rightarrow> value_type \<Rightarrow> value_type \<Rightarrow> value_type
     \<Rightarrow> heap \<times> exception option \<times> Particles" where
  "Particles_push_back h p x_val v_val f_val =
     (case vector_push_back h (x_vec p) x_val of
        (h1, Some e, a) \<Rightarrow> (h1, Some e, p\<lparr> x_vec := a \<rparr>)
      | (h1, None, a) \<Rightarrow>
     (case vector_push_back h1 (v_vec p) v_val of
        (h2, Some e, b) \<Rightarrow> (h2, Some e, p\<lparr> x_vec := a, v_vec := b \<rparr>)
      | (h2, None, b) \<Rightarrow>
     (case vector_push_back h2 (f_vec p) f_val of
        (h3, r, c) \<Rightarrow> (h3, r, p\<lparr> x_vec := a, v_vec := b, f_vec := c \<rparr>))))"

text \<open>\<open>pop_back\<close> asserts that the container is not empty.\<close>

definition Particles_pop_back :: "Particles \<Rightarrow> Particles option" where
  "Particles_pop_back p =
     (if Particles_empty p then None
      else case (vector_pop_back (x_vec p), vector_pop_back (v_vec p), vector_pop_back (f_vec p)) of
             (Some a, Some b, Some c) \<Rightarrow> Some (p\<lparr> x_vec := a, v_vec := b, f_vec := c \<rparr>)
           | _ \<Rightarrow> None)"

text \<open>\<open>Particles(capacity)\<close>: the three vectors start empty, then \<open>reserve\<close> runs.  An
  exception in a constructor leaves no object.\<close>

definition Particles_ctor_capacity :: "heap \<Rightarrow> nat \<Rightarrow> heap \<times> (exception + Particles)" where
  "Particles_ctor_capacity h cap =
     (case Particles_reserve h Particles_default cap of
        (h', Some e, p) \<Rightarrow> (h', Inl e)
      | (h', None, p) \<Rightarrow> (h', Inr p))"

text \<open>\<open>Particles(size, x_val, v_val, f_val)\<close>.\<close>

definition Particles_ctor_fill ::
  "heap \<Rightarrow> nat \<Rightarrow> value_type \<Rightarrow> value_type \<Rightarrow> value_type \<Rightarrow> heap \<times> (exception + Particles)" where
  "Particles_ctor_fill h n x_val v_val f_val =
     (case vector_ctor h n x_val of
        (h1, Inl e) \<Rightarrow> (h1, Inl e)
      | (h1, Inr a) \<Rightarrow>
     (case vector_ctor h1 n v_val of
        (h2, Inl e) \<Rightarrow> (h2, Inl e)
      | (h2, Inr b) \<Rightarrow>
     (case vector_ctor h2 n f_val of
        (h3, Inl e) \<Rightarrow> (h3, Inl e)
      | (h3, Inr c) \<Rightarrow> (h3, Inr \<lparr> x_vec = a, v_vec = b, f_vec = c \<rparr>))))"


definition Particles_v :: "Particles \<Rightarrow> nat \<Rightarrow> value_type option" where
  "Particles_v p i = (if i < Particles_size p then vector_at (v_vec p) i else None)"


text \<open>The invariant of the container: the three vectors have one length.\<close>

definition Particles_synchronized :: "Particles \<Rightarrow> bool" where
  "Particles_synchronized p \<longleftrightarrow>
     vector_size (x_vec p) = vector_size (v_vec p) \<and>
     vector_size (v_vec p) = vector_size (f_vec p)"

section \<open>Transport kernels\<close>

text \<open>The body of the loop of \<open>advance_positions\<close> at the index \<open>i\<close>, on the spans \<open>x\<close> and
  \<open>v\<close>: an index beyond a span is undefined.\<close>

definition advance_step :: "value_type list \<Rightarrow> value_type \<Rightarrow> value_type list \<Rightarrow> nat \<Rightarrow> value_type list option" where
  "advance_step v dt x i =
     (if i < List.length x \<and> i < List.length v then Some (x[i := x ! i + v ! i * dt]) else None)"

function advance_loop ::
  "value_type list \<Rightarrow> value_type \<Rightarrow> nat \<Rightarrow> value_type list \<Rightarrow> nat \<Rightarrow> value_type list option" where
  "advance_loop v dt n x i =
     (if i < n then
        (case advance_step v dt x i of
           None \<Rightarrow> None
         | Some x' \<Rightarrow> advance_loop v dt n x' (i + 1))
      else Some x)"
  by pat_completeness auto
termination
  by (relation "measure (\<lambda>(v, dt, n, x, i). n - i)") auto

definition advance_positions :: "Particles \<Rightarrow> value_type \<Rightarrow> Particles option" where
  "advance_positions p dt =
     (case advance_loop (elems (v_vec p)) dt (Particles_size p) (elems (x_vec p)) 0 of
        None \<Rightarrow> None
      | Some x' \<Rightarrow> Some (p\<lparr> x_vec := (x_vec p)\<lparr> elems := x' \<rparr> \<rparr>))"

text \<open>With OpenMP the iterations of the loop run in an order the program does not fix.
  The same loop body, run once for each index of a given list, in the order of the list:\<close>

fun advance_in_order ::
  "value_type list \<Rightarrow> value_type \<Rightarrow> value_type list \<Rightarrow> nat list \<Rightarrow> value_type list option" where
  "advance_in_order v dt x [] = Some x"
| "advance_in_order v dt x (i # order) =
     (case advance_step v dt x i of
        None \<Rightarrow> None
      | Some x' \<Rightarrow> advance_in_order v dt x' order)"

definition advance_positions_in_order :: "Particles \<Rightarrow> value_type \<Rightarrow> nat list \<Rightarrow> Particles option" where
  "advance_positions_in_order p dt order =
     (case advance_in_order (elems (v_vec p)) dt (elems (x_vec p)) order of
        None \<Rightarrow> None
      | Some x' \<Rightarrow> Some (p\<lparr> x_vec := (x_vec p)\<lparr> elems := x' \<rparr> \<rparr>))"



section \<open>Concrete grids and particle sets\<close>

text \<open>\<open>Grid(4, 0.0, 4.0)\<close>, the grid of the tests.\<close>

definition grid_4 :: Grid where
  "grid_4 = \<lparr> n_cells = 4, x_min = 0, x_max = 4, length_g = 4, dx = 1, inv_dx = 1,
              boundary_condition = Periodic \<rparr>"

text \<open>\<open>Grid(18446744073709551614, 0.0, 1.0)\<close>: the cell count \<open>2\<^sup>6\<^sup>4 - 2\<close> is a value of
  \<open>std::size_t\<close> above \<open>PTRDIFF_MAX\<close>.\<close>

definition grid_wide :: Grid where
  "grid_wide = \<lparr> n_cells = 18446744073709551614, x_min = 0, x_max = 1, length_g = 1,
                 dx = 1 / 18446744073709551614, inv_dx = 18446744073709551614,
                 boundary_condition = Periodic \<rparr>"

text \<open>Grids in binary64, with the members the constructor computes:
  \<open>Grid(4, 0.0, 4.0)\<close>; \<open>Grid(18446744073709551615, 0.0, 1.0)\<close>, whose cell count \<open>2\<^sup>6\<^sup>4 - 1\<close> is
  converted to the double \<open>2\<^sup>6\<^sup>4\<close>; \<open>Grid(3, 0.0, 0.3)\<close>, whose \<open>0.3\<close> is the double nearest to
  it; and \<open>Grid(4, 0.0, 2\<^sup>-\<^sup>1\<^sup>0\<^sup>7\<^sup>4)\<close>, whose upper bound is the smallest positive double.\<close>

definition grid_4_ieee :: Grid_ieee where
  "grid_4_ieee = \<lparr> n_cells = 4, x_min = Finite 0, x_max = Finite 4, length_g = Finite 4,
                   dx = Finite 1, inv_dx = Finite 1, boundary_condition = Periodic \<rparr>"

definition grid_max_ieee :: Grid_ieee where
  "grid_max_ieee = \<lparr> n_cells = 18446744073709551615, x_min = Finite 0, x_max = Finite 1,
                     length_g = Finite 1, dx = Finite (1 / 2 ^ 64), inv_dx = Finite (2 ^ 64),
                     boundary_condition = Periodic \<rparr>"


definition grid_tiny :: Grid_ieee where
  "grid_tiny = \<lparr> n_cells = 4, x_min = Finite 0, x_max = Finite (1 / 2 ^ 1074),
                 length_g = Finite (1 / 2 ^ 1074), dx = Finite 0, inv_dx = PInf,
                 boundary_condition = Periodic \<rparr>"

text \<open>\<open>Grid(4, NaN, 1.0)\<close>: every member computed from \<open>x_min\<close> is NaN.\<close>

definition grid_nan :: Grid_ieee where
  "grid_nan = \<lparr> n_cells = 4, x_min = NaN, x_max = Finite 1, length_g = NaN, dx = NaN,
                inv_dx = NaN, boundary_condition = Periodic \<rparr>"





text \<open>Particle sets: one sample, two samples, and \<open>n\<close> equal samples in vectors of a
  given capacity.\<close>

definition one_particle :: Particles where
  "one_particle =
     \<lparr> x_vec = \<lparr> elems = [1], capacity = 1 \<rparr>,
       v_vec = \<lparr> elems = [2], capacity = 1 \<rparr>,
       f_vec = \<lparr> elems = [3], capacity = 1 \<rparr> \<rparr>"

definition two_particles :: Particles where
  "two_particles =
     \<lparr> x_vec = \<lparr> elems = [0, 0], capacity = 2 \<rparr>,
       v_vec = \<lparr> elems = [1, 2], capacity = 2 \<rparr>,
       f_vec = \<lparr> elems = [1, 1], capacity = 2 \<rparr> \<rparr>"

definition uniform_particles ::
  "nat \<Rightarrow> nat \<Rightarrow> value_type \<Rightarrow> value_type \<Rightarrow> value_type \<Rightarrow> Particles" where
  "uniform_particles n cap a b c =
     \<lparr> x_vec = \<lparr> elems = replicate n a, capacity = cap \<rparr>,
       v_vec = \<lparr> elems = replicate n b, capacity = cap \<rparr>,
       f_vec = \<lparr> elems = replicate n c, capacity = cap \<rparr> \<rparr>"



section \<open>Properties of binary64 rounding\<close>

lemma pow2_pos [simp]: "0 < (2::real) powi k"
  by simp

lemma pow2_le: "m \<le> n \<Longrightarrow> (2::real) powi m \<le> 2 powi n"
  by (rule power_int_increasing) simp_all

lemma pow2_less_D: "(2::real) powi m < 2 powi n \<Longrightarrow> m < n"
  using pow2_le [of n m] by (cases "m < n") auto

lemma powr_powi: "(2::real) powr real_of_int k = 2 powi k"
  by (simp add: powr_real_of_int')

lemma powr_powi_Suc: "(2::real) powr (real_of_int k + 1) = 2 powi (k + 1)"
  using powr_powi [of "k + 1"] by simp

lemma floor_log2_bounds:
  assumes "r \<noteq> 0"
  shows "2 powi \<lfloor>log 2 \<bar>r\<bar>\<rfloor> \<le> \<bar>r\<bar>" and "\<bar>r\<bar> < 2 powi (\<lfloor>log 2 \<bar>r\<bar>\<rfloor> + 1)"
proof -
  have p: "0 < \<bar>r\<bar>" using assms by simp
  have "2 powr real_of_int \<lfloor>log 2 \<bar>r\<bar>\<rfloor> \<le> \<bar>r\<bar> \<and> \<bar>r\<bar> < 2 powr (real_of_int \<lfloor>log 2 \<bar>r\<bar>\<rfloor> + 1)"
    using floor_log_eq_powr_iff [OF p, of 2 "\<lfloor>log 2 \<bar>r\<bar>\<rfloor>"] by simp
  then show "2 powi \<lfloor>log 2 \<bar>r\<bar>\<rfloor> \<le> \<bar>r\<bar>" and "\<bar>r\<bar> < 2 powi (\<lfloor>log 2 \<bar>r\<bar>\<rfloor> + 1)"
    by (simp_all only: powr_powi powr_powi_Suc)
qed

lemma floor_log2_eq:
  assumes "2 powi e \<le> \<bar>r\<bar>" and "\<bar>r\<bar> < 2 powi (e + 1)"
  shows "\<lfloor>log 2 \<bar>r\<bar>\<rfloor> = e"
proof -
  have p: "0 < \<bar>r\<bar>" using assms(1) pow2_pos [of e] by linarith
  have "2 powr real_of_int e \<le> \<bar>r\<bar> \<and> \<bar>r\<bar> < 2 powr (real_of_int e + 1)"
    using assms by (simp only: powr_powi powr_powi_Suc)
  then show ?thesis using floor_log_eq_powr_iff [OF p, of 2 e] by simp
qed

lemma exponent_normal:
  assumes "2 powi e \<le> \<bar>r\<bar>" and "\<bar>r\<bar> < 2 powi (e + 1)" and "- 1022 \<le> e"
  shows "exponent r = e"
proof -
  have "0 < \<bar>r\<bar>" using assms(1) pow2_pos [of e] by linarith
  then have "r \<noteq> 0" by auto
  then show ?thesis using assms by (simp add: exponent_def floor_log2_eq)
qed

lemma exponent_subnormal:
  assumes "\<bar>r\<bar> < 2 powi (- 1022)"
  shows "exponent r = - 1022"
proof (cases "r = 0")
  case True
  then show ?thesis by (simp add: exponent_def)
next
  case False
  have "2 powi \<lfloor>log 2 \<bar>r\<bar>\<rfloor> < (2::real) powi (- 1022)"
    using floor_log2_bounds(1) [OF False] assms by linarith
  then have "\<lfloor>log 2 \<bar>r\<bar>\<rfloor> < - 1022"
    by (rule pow2_less_D)
  then show ?thesis using False by (simp add: exponent_def)
qed

lemma exponent_ge: "- 1022 \<le> exponent r"
  by (simp add: exponent_def)

lemma exponent_le:
  assumes "r \<noteq> 0" and "- 1022 < exponent r"
  shows "2 powi exponent r \<le> \<bar>r\<bar>"
proof -
  have "exponent r = \<lfloor>log 2 \<bar>r\<bar>\<rfloor>" using assms by (simp add: exponent_def max_def split: if_splits)
  then show ?thesis using floor_log2_bounds(1) [OF assms(1)] by simp
qed

lemma exponent_upper: "\<bar>r\<bar> < 2 powi (exponent r + 1)"
proof (cases "r = 0")
  case True
  then show ?thesis by simp
next
  case False
  have "\<lfloor>log 2 \<bar>r\<bar>\<rfloor> + 1 \<le> exponent r + 1" using False by (simp add: exponent_def)
  then have "(2::real) powi (\<lfloor>log 2 \<bar>r\<bar>\<rfloor> + 1) \<le> 2 powi (exponent r + 1)"
    by (rule pow2_le)
  then show ?thesis using floor_log2_bounds(2) [OF False] by linarith
qed

lemma round_even_of_int [simp]: "round_even (of_int N) = N"
  by (simp add: round_even_def)

lemma round_even_range: "\<lfloor>y\<rfloor> \<le> round_even y" "round_even y \<le> \<lfloor>y\<rfloor> + 1"
  by (simp_all add: round_even_def Let_def)

lemma round_even_le:
  assumes "y \<le> of_int N"
  shows "round_even y \<le> N"
proof (cases "y = of_int N")
  case True
  then show ?thesis by simp
next
  case False
  then have "y < of_int N" using assms by simp
  then have "\<lfloor>y\<rfloor> < N" by (simp add: floor_less_iff)
  then show ?thesis using round_even_range(2) [of y] by linarith
qed

lemma round_even_ge:
  assumes "of_int N \<le> y"
  shows "N \<le> round_even y"
proof -
  have "N \<le> \<lfloor>y\<rfloor>" using assms by (simp add: le_floor_iff)
  then show ?thesis using round_even_range(1) [of y] by linarith
qed

lemma round_even_abs_le:
  assumes "\<bar>y\<bar> \<le> of_int N"
  shows "\<bar>round_even y\<bar> \<le> N"
proof -
  have "y \<le> of_int N" and "of_int (- N) \<le> y" using assms by simp_all
  then have "round_even y \<le> N" and "- N \<le> round_even y"
    using round_even_le [of y N] round_even_ge [of "- N" y] by blast+
  then show ?thesis by simp
qed

lemma quantum_pos [simp]: "0 < quantum r"
  by (simp add: quantum_def)

lemma pow2_less: "m < n \<Longrightarrow> (2::real) powi m < 2 powi n"
  by (rule power_int_strict_increasing) simp_all

text \<open>A power of two with a non-negative exponent is an integer.\<close>

lemma pow2_int: "0 \<le> k \<Longrightarrow> (2::real) powi k = of_int (2 ^ nat k)"
  by (simp add: power_int_def)

lemma pow2_diff: "(2::real) powi a / 2 powi b = 2 powi (a - b)"
  by (simp add: power_int_diff)

lemma pow2_add: "(2::real) powi a * 2 powi b = 2 powi (a + b)"
  by (simp add: power_int_add)

lemma rd_bound:
  assumes r: "\<bar>r\<bar> \<le> 2 powi k" and k: "- 1074 \<le> k" "k \<le> 1023"
  shows "\<exists>v. rd r = Finite v \<and> \<bar>v\<bar> \<le> 2 powi k"
proof -
  define e where "e = exponent r"
  define q where "q = quantum r"
  define m where "m = round_even (r / q)"
  have q: "q = 2 powi (e - 52)" by (simp add: q_def quantum_def e_def)
  have qp: "0 < q" by (simp add: q_def)
  have ek: "e - 52 \<le> k"
  proof (cases "r = 0")
    case True
    then show ?thesis using k by (simp add: e_def exponent_def)
  next
    case False
    have "2 powi \<lfloor>log 2 \<bar>r\<bar>\<rfloor> \<le> \<bar>r\<bar>" by (rule floor_log2_bounds(1) [OF False])
    moreover have "(2::real) powi k < 2 powi (k + 1)"
      by (rule pow2_less) simp
    ultimately have "(2::real) powi \<lfloor>log 2 \<bar>r\<bar>\<rfloor> < 2 powi (k + 1)"
      using r by linarith
    then have "\<lfloor>log 2 \<bar>r\<bar>\<rfloor> < k + 1" by (rule pow2_less_D)
    then show ?thesis using k False by (simp add: e_def exponent_def)
  qed
  define N :: int where "N = 2 ^ nat (k - (e - 52))"
  have N: "of_int N = (2::real) powi (k - (e - 52))"
    using ek by (simp add: N_def pow2_int)
  have Nq: "of_int N * q = 2 powi k"
    unfolding N q by (simp add: pow2_add)
  have "\<bar>r / q\<bar> = \<bar>r\<bar> / q" using qp by simp
  also have "\<dots> \<le> 2 powi k / q" using r qp by (simp add: divide_right_mono)
  also have "\<dots> = of_int N" unfolding N q by (simp add: pow2_diff)
  finally have "\<bar>m\<bar> \<le> N" unfolding m_def by (rule round_even_abs_le)
  then have "\<bar>of_int m :: real\<bar> \<le> of_int N"
    by (metis of_int_abs of_int_le_iff)
  then have "\<bar>of_int m * q\<bar> \<le> of_int N * q"
    using qp by (simp add: abs_mult mult_right_mono)
  then have v: "\<bar>of_int m * q\<bar> \<le> 2 powi k" by (simp only: Nq)
  have "(2::real) powi k < 2 powi 1024"
    using k by (intro pow2_less) simp
  then have "\<not> overflow_threshold \<le> \<bar>of_int m * q\<bar>"
    using v unfolding overflow_threshold_def by linarith
  then have "rd r = Finite (of_int m * q)"
    unfolding rd_def Let_def q_def [symmetric] m_def [symmetric] by simp
  then show ?thesis using v by blast
qed

lemma rd_lower:
  assumes r: "2 powi k \<le> r" and k: "- 1074 \<le> k"
  shows "rd r = PInf \<or> (\<exists>v. rd r = Finite v \<and> 2 powi k \<le> v)"
proof -
  define e where "e = exponent r"
  define q where "q = quantum r"
  define m where "m = round_even (r / q)"
  have q: "q = 2 powi (e - 52)" by (simp add: q_def quantum_def e_def)
  have qp: "0 < q" by (simp add: q_def)
  have rp: "0 < r" using r pow2_pos [of k] by linarith
  have v: "2 powi k \<le> of_int m * q"
  proof (cases "e - 52 \<le> k")
    case True
    define N :: int where "N = 2 ^ nat (k - (e - 52))"
    have N: "of_int N = (2::real) powi (k - (e - 52))"
      using True by (simp add: N_def pow2_int)
    have Nq: "of_int N * q = 2 powi k"
      unfolding N q by (simp add: pow2_add)
    have "of_int N = 2 powi k / q" unfolding N q by (simp add: pow2_diff)
    also have "\<dots> \<le> r / q" using r qp by (simp add: divide_right_mono)
    finally have "N \<le> m" unfolding m_def by (rule round_even_ge)
    then have "of_int N * q \<le> of_int m * q" using qp by simp
    then show ?thesis by (simp only: Nq)
  next
    case False
    then have e: "- 1022 < e" "k \<le> e" using k by simp_all
    have "2 powi e \<le> \<bar>r\<bar>"
      using exponent_le [of r] rp e(1) by (simp add: e_def)
    then have re: "2 powi e \<le> r" using rp by simp
    define N :: int where "N = 2 ^ 52"
    have N: "of_int N = (2::real) powi 52" by (simp add: N_def)
    have "(2::real) powi 52 * 2 powi (e - 52) = 2 powi e"
      unfolding pow2_add by simp
    then have NQ: "of_int N * q = 2 powi e" by (simp only: N q)
    then have Nq: "of_int N = 2 powi e / q" using qp by (simp add: field_simps)
    have "of_int N \<le> r / q" unfolding Nq using re qp by (simp add: divide_right_mono)
    then have "N \<le> m" unfolding m_def by (rule round_even_ge)
    then have "of_int N * q \<le> of_int m * q" using qp by simp
    then have "2 powi e \<le> of_int m * q" by (simp only: NQ)
    moreover have "(2::real) powi k \<le> 2 powi e" using e(2) by (rule pow2_le)
    ultimately show ?thesis by linarith
  qed
  show ?thesis
    unfolding rd_def Let_def q_def [symmetric] m_def [symmetric]
    using v rp by simp
qed

lemma round_even_0 [simp]: "round_even 0 = 0"
  by (simp add: round_even_def)

lemma overflow_threshold_pos: "0 < overflow_threshold"
  by (simp add: overflow_threshold_def del: power_int_numeral)

lemma rd_0 [simp]: "rd 0 = Finite 0"
  using overflow_threshold_pos by (simp add: rd_def Let_def)

text \<open>Rounding at a known exponent, for the evaluation at given numbers.\<close>

lemma rd_normal:
  assumes "2 powi e \<le> \<bar>r\<bar>" and "\<bar>r\<bar> < 2 powi (e + 1)" and "- 1022 \<le> e" and "e \<le> 1022"
  shows "rd r = Finite (of_int (round_even (r / 2 powi (e - 52))) * 2 powi (e - 52))"
proof -
  have q: "quantum r = 2 powi (e - 52)"
    using exponent_normal [OF assms(1-3)] by (simp add: quantum_def)
  have "\<bar>r\<bar> \<le> 2 powi (e + 1)" using assms(2) by simp
  from rd_bound [OF this] assms(3,4)
  obtain v where "rd r = Finite v" by auto
  then show ?thesis
    unfolding rd_def Let_def q by (auto split: if_splits)
qed

lemma rd_subnormal:
  assumes "\<bar>r\<bar> < 2 powi (- 1022)"
  shows "rd r = Finite (of_int (round_even (r / 2 powi (- 1074))) * 2 powi (- 1074))"
proof -
  have q: "quantum r = 2 powi (- 1074)"
    using exponent_subnormal [OF assms] by (simp add: quantum_def del: power_int_minus)
  have "\<bar>r\<bar> \<le> 2 powi (- 1022)" using assms by simp
  from rd_bound [OF this]
  obtain v where "rd r = Finite v" by auto
  then show ?thesis
    unfolding rd_def Let_def q by (auto split: if_splits)
qed

text \<open>The rounded value is a multiple of the spacing nearest to the real.\<close>

lemma round_even_nearest: "\<bar>of_int (round_even y) - y\<bar> \<le> 1 / 2"
proof -
  have "of_int \<lfloor>y\<rfloor> \<le> y" and "y < of_int \<lfloor>y\<rfloor> + 1" by linarith+
  then show ?thesis by (auto simp: round_even_def Let_def)
qed

lemma rd_nearest:
  assumes "rd r = Finite v"
  shows "\<bar>v - r\<bar> \<le> quantum r / 2"
proof -
  define q where "q = quantum r"
  define m where "m = round_even (r / q)"
  have qp: "0 < q" by (simp add: q_def)
  have v: "v = of_int m * q"
    using assms unfolding rd_def Let_def q_def [symmetric] m_def [symmetric]
    by (simp split: if_splits)
  have "v - r = (of_int m - r / q) * q" using qp by (simp add: v field_simps)
  then have "\<bar>v - r\<bar> = \<bar>of_int m - r / q\<bar> * q" using qp by (simp add: abs_mult)
  also have "\<dots> \<le> (1 / 2) * q"
    using round_even_nearest [of "r / q"] qp unfolding m_def by (intro mult_right_mono) simp_all
  finally show ?thesis by (simp add: q_def)
qed

text \<open>Bounds on the rounded value by powers of two, and the rounded operations on finite
  operands within such bounds.\<close>

lemma Finite_minus: "Finite a - Finite b = rd (a - b)"
  by (simp add: minus_double_def)

lemma pow2_le_D: "(2::real) powi m \<le> 2 powi n \<Longrightarrow> m \<le> n"
  by (rule ccontr) (use pow2_less [of n m] in simp)

lemma pow2_double: "(2::real) powi (k + 1) = 2 * 2 powi k"
  by (simp add: power_int_add)

lemma rd_between:
  assumes lo: "2 powi a \<le> r" and hi: "r \<le> 2 powi b" and a: "- 1074 \<le> a" and b: "b \<le> 1023"
  shows "\<exists>v. rd r = Finite v \<and> 2 powi a \<le> v \<and> v \<le> 2 powi b"
proof -
  have "(2::real) powi a \<le> 2 powi b" using lo hi by linarith
  then have ab: "a \<le> b" by (rule pow2_le_D)
  have rp: "0 < r" using lo pow2_pos [of a] by linarith
  then have "\<bar>r\<bar> \<le> 2 powi b" using hi by simp
  from rd_bound [OF this] a b ab obtain v where v: "rd r = Finite v" "\<bar>v\<bar> \<le> 2 powi b"
    by auto
  from rd_lower [OF lo a] v(1) have "2 powi a \<le> v" by simp
  with v show ?thesis by auto
qed

lemma quantum_le:
  assumes r: "\<bar>r\<bar> \<le> 2 powi E" and E: "- 1022 \<le> E"
  shows "quantum r \<le> 2 powi (E - 52)"
proof -
  have "exponent r \<le> E"
  proof (cases "r = 0")
    case True
    then show ?thesis using E by (simp add: exponent_def)
  next
    case False
    have "2 powi \<lfloor>log 2 \<bar>r\<bar>\<rfloor> \<le> \<bar>r\<bar>" by (rule floor_log2_bounds(1) [OF False])
    then have "(2::real) powi \<lfloor>log 2 \<bar>r\<bar>\<rfloor> \<le> 2 powi E" using r by linarith
    then have "\<lfloor>log 2 \<bar>r\<bar>\<rfloor> \<le> E" by (rule pow2_le_D)
    then show ?thesis using E False by (simp add: exponent_def)
  qed
  then have "exponent r - 52 \<le> E - 52" by simp
  then show ?thesis unfolding quantum_def by (rule pow2_le)
qed

lemma rd_error:
  assumes r: "\<bar>r\<bar> \<le> 2 powi E" and E: "- 1022 \<le> E" "E \<le> 1023"
  shows "\<exists>v. rd r = Finite v \<and> \<bar>v\<bar> \<le> 2 powi E \<and> \<bar>v - r\<bar> \<le> 2 powi (E - 53)"
proof -
  have "\<exists>v. rd r = Finite v \<and> \<bar>v\<bar> \<le> 2 powi E"
    using E by (intro rd_bound [OF r]) simp_all
  then obtain v where v: "rd r = Finite v" "\<bar>v\<bar> \<le> 2 powi E" by blast
  have "\<bar>v - r\<bar> \<le> quantum r / 2" by (rule rd_nearest [OF v(1)])
  also have "\<dots> \<le> 2 powi (E - 52) / 2" using quantum_le [OF r E(1)] by simp
  also have "\<dots> = 2 powi (E - 53)" using pow2_double [of "E - 53"] by simp
  finally show ?thesis using v by blast
qed

lemma pow2_sum:
  fixes a b :: real
  assumes "\<bar>a\<bar> \<le> 2 powi i" and "\<bar>b\<bar> \<le> 2 powi j" and "i < m" and "j < m"
  shows "\<bar>a + b\<bar> \<le> 2 powi m" and "\<bar>a - b\<bar> \<le> 2 powi m"
proof -
  have m: "(2::real) powi m = 2 * 2 powi (m - 1)" using pow2_double [of "m - 1"] by simp
  have "i \<le> m - 1" and "j \<le> m - 1" using assms(3,4) by simp_all
  then have "(2::real) powi i \<le> 2 powi (m - 1)" and "(2::real) powi j \<le> 2 powi (m - 1)"
    by (simp_all only: pow2_le)
  then have "\<bar>a\<bar> \<le> 2 powi (m - 1)" and "\<bar>b\<bar> \<le> 2 powi (m - 1)"
    using assms(1,2) by linarith+
  then show "\<bar>a + b\<bar> \<le> 2 powi m" and "\<bar>a - b\<bar> \<le> 2 powi m"
    unfolding m by linarith+
qed

lemma pow2_prod:
  fixes a b :: real
  assumes "\<bar>a\<bar> \<le> 2 powi i" and "\<bar>b\<bar> \<le> 2 powi j" and "i + j \<le> m"
  shows "\<bar>a * b\<bar> \<le> 2 powi m"
proof -
  have "\<bar>a\<bar> * \<bar>b\<bar> \<le> 2 powi i * 2 powi j"
    using assms by (intro mult_mono) simp_all
  then have "\<bar>a * b\<bar> \<le> 2 powi (i + j)" by (simp only: abs_mult pow2_add)
  then show ?thesis using pow2_le [OF assms(3)] by linarith
qed


lemma double_minus_bound:
  assumes "\<bar>a\<bar> \<le> 2 powi i" and "\<bar>b\<bar> \<le> 2 powi j" and "i < m" and "j < m"
    and "- 1074 \<le> m" and "m \<le> 1023"
  shows "\<exists>c. Finite a - Finite b = Finite c \<and> \<bar>c\<bar> \<le> 2 powi m"
  using rd_bound [OF pow2_sum(2) [OF assms(1-4)] assms(5,6)] by (simp add: Finite_minus)

lemma double_times_bound:
  assumes "\<bar>a\<bar> \<le> 2 powi i" and "\<bar>b\<bar> \<le> 2 powi j" and "i + j \<le> m"
    and "- 1074 \<le> m" and "m \<le> 1023"
  shows "\<exists>c. Finite a * Finite b = Finite c \<and> \<bar>c\<bar> \<le> 2 powi m"
  using rd_bound [OF pow2_prod [OF assms(1-3)] assms(4,5)] by simp


text \<open>Rounding at the numbers of the examples.\<close>

lemma rd_at_1:
  assumes "r = 4"
  shows "rd r = Finite 4"
  unfolding assms
  by (subst rd_normal [where e = "2"]) (simp_all add: round_even_def Let_def)

lemma rd_at_2:
  assumes "r = 1"
  shows "rd r = Finite 1"
  unfolding assms
  by (subst rd_normal [where e = "0"]) (simp_all add: round_even_def Let_def)

lemma rd_at_3:
  assumes "r = - (1 / 2 ^ 70)"
  shows "rd r = Finite (- (1 / 2 ^ 70))"
  unfolding assms
  by (subst rd_normal [where e = "- 70"]) (simp_all add: round_even_def Let_def)

lemma rd_at_4:
  assumes "r = 4722366482869645213695 / 2 ^ 70"
  shows "rd r = Finite 4"
  unfolding assms
  by (subst rd_normal [where e = "1"]) (simp_all add: round_even_def Let_def)

lemma rd_at_5: "r = 0 \<Longrightarrow> rd r = Finite 0"
  by simp

lemma rd_at_6:
  assumes "r = - 3"
  shows "rd r = Finite (- 3)"
  unfolding assms
  by (subst rd_normal [where e = "1"]) (simp_all add: round_even_def Let_def)

lemma rd_at_7:
  assumes "r = 399 / 100"
  shows "rd r = Finite (2246170314151035 / 2 ^ 49)"
  unfolding assms
  by (subst rd_normal [where e = "1"]) (simp_all add: round_even_def Let_def)

lemma rd_at_8:
  assumes "r = 2246170314151035 / 2 ^ 49"
  shows "rd r = Finite (2246170314151035 / 2 ^ 49)"
  unfolding assms
  by (subst rd_normal [where e = "1"]) (simp_all add: round_even_def Let_def)

lemma rd_at_9:
  assumes "r = 9 / 2"
  shows "rd r = Finite (9 / 2)"
  unfolding assms
  by (subst rd_normal [where e = "2"]) (simp_all add: round_even_def Let_def)

lemma rd_at_10:
  assumes "r = 1 / 2"
  shows "rd r = Finite (1 / 2)"
  unfolding assms
  by (subst rd_normal [where e = "- 1"]) (simp_all add: round_even_def Let_def)

lemma rd_at_11:
  assumes "r = - (1 / 2)"
  shows "rd r = Finite (- (1 / 2))"
  unfolding assms
  by (subst rd_normal [where e = "- 1"]) (simp_all add: round_even_def Let_def)

lemma rd_at_12:
  assumes "r = 7 / 2"
  shows "rd r = Finite (7 / 2)"
  unfolding assms
  by (subst rd_normal [where e = "1"]) (simp_all add: round_even_def Let_def)

lemma rd_at_13:
  assumes "r = 7"
  shows "rd r = Finite 7"
  unfolding assms
  by (subst rd_normal [where e = "2"]) (simp_all add: round_even_def Let_def)

lemma rd_at_14:
  assumes "r = 5 / 2"
  shows "rd r = Finite (5 / 2)"
  unfolding assms
  by (subst rd_normal [where e = "1"]) (simp_all add: round_even_def Let_def)

lemma rd_at_15:
  assumes "r = 2"
  shows "rd r = Finite 2"
  unfolding assms
  by (subst rd_normal [where e = "1"]) (simp_all add: round_even_def Let_def)

lemma rd_at_16:
  assumes "r = 3 / 2"
  shows "rd r = Finite (3 / 2)"
  unfolding assms
  by (subst rd_normal [where e = "0"]) (simp_all add: round_even_def Let_def)

lemma rd_at_17:
  assumes "r = 18446744073709551615"
  shows "rd r = Finite 18446744073709551616"
  unfolding assms
  by (subst rd_normal [where e = "63"]) (simp_all add: round_even_def Let_def)

lemma rd_at_18:
  assumes "r = 1 / 2 ^ 64"
  shows "rd r = Finite (1 / 2 ^ 64)"
  unfolding assms
  by (subst rd_normal [where e = "- 64"]) (simp_all add: round_even_def Let_def)

lemma rd_at_19:
  assumes "r = 18446744073709551616"
  shows "rd r = Finite 18446744073709551616"
  unfolding assms
  by (subst rd_normal [where e = "64"]) (simp_all add: round_even_def Let_def)

lemma rd_at_20:
  assumes "r = 3 / 2 ^ 2"
  shows "rd r = Finite (3 / 2 ^ 2)"
  unfolding assms
  by (subst rd_normal [where e = "- 1"]) (simp_all add: round_even_def Let_def)

lemma rd_at_21:
  assumes "r = 13835058055282163712"
  shows "rd r = Finite 13835058055282163712"
  unfolding assms
  by (subst rd_normal [where e = "63"]) (simp_all add: round_even_def Let_def)

lemma rd_at_22:
  assumes "r = 3 / 10"
  shows "rd r = Finite (5404319552844595 / 2 ^ 54)"
  unfolding assms
  by (subst rd_normal [where e = "- 2"]) (simp_all add: round_even_def Let_def)

lemma rd_at_23:
  assumes "r = 5404319552844595 / 2 ^ 54"
  shows "rd r = Finite (5404319552844595 / 2 ^ 54)"
  unfolding assms
  by (subst rd_normal [where e = "- 2"]) (simp_all add: round_even_def Let_def)

lemma rd_at_24:
  assumes "r = 3"
  shows "rd r = Finite 3"
  unfolding assms
  by (subst rd_normal [where e = "1"]) (simp_all add: round_even_def Let_def)

lemma rd_at_25:
  assumes "r = 5404319552844595 / 54043195528445952"
  shows "rd r = Finite (7205759403792793 / 2 ^ 56)"
  unfolding assms
  by (subst rd_normal [where e = "- 4"]) (simp_all add: round_even_def Let_def)

lemma rd_at_26:
  assumes "r = 72057594037927936 / 7205759403792793"
  shows "rd r = Finite 10"
  unfolding assms
  by (subst rd_normal [where e = "3"]) (simp_all add: round_even_def Let_def)

lemma rd_at_27:
  assumes "r = 7205759403792793 / 2 ^ 56"
  shows "rd r = Finite (7205759403792793 / 2 ^ 56)"
  unfolding assms
  by (subst rd_normal [where e = "- 4"]) (simp_all add: round_even_def Let_def)

lemma rd_at_28:
  assumes "r = 36028797018963965 / 2 ^ 55"
  shows "rd r = Finite (9007199254740991 / 2 ^ 53)"
  unfolding assms
  by (subst rd_normal [where e = "- 1"]) (simp_all add: round_even_def Let_def)

lemma rd_at_29:
  assumes "r = 1 / 2 ^ 53"
  shows "rd r = Finite (1 / 2 ^ 53)"
  unfolding assms
  by (subst rd_normal [where e = "- 53"]) (simp_all add: round_even_def Let_def)

lemma rd_at_30:
  assumes "r = 5 / 2 ^ 52"
  shows "rd r = Finite (5 / 2 ^ 52)"
  unfolding assms
  by (subst rd_normal [where e = "- 50"]) (simp_all add: round_even_def Let_def)

lemma rd_at_31:
  assumes "r = 45035996273704955 / 2 ^ 51"
  shows "rd r = Finite (5629499534213119 / 2 ^ 48)"
  unfolding assms
  by (subst rd_normal [where e = "4"]) (simp_all add: round_even_def Let_def)

lemma rd_at_32:
  assumes "r = 90071992547409909 / 2 ^ 52"
  shows "rd r = Finite (5629499534213119 / 2 ^ 48)"
  unfolding assms
  by (subst rd_normal [where e = "4"]) (simp_all add: round_even_def Let_def)

lemma rd_at_33:
  assumes "r = 1 / 10"
  shows "rd r = Finite (3602879701896397 / 2 ^ 55)"
  unfolding assms
  by (subst rd_normal [where e = "- 4"]) (simp_all add: round_even_def Let_def)

lemma rd_at_34:
  assumes "r = 12610078956637389 / 2 ^ 54"
  shows "rd r = Finite (3152519739159347 / 2 ^ 52)"
  unfolding assms
  by (subst rd_normal [where e = "- 1"]) (simp_all add: round_even_def Let_def)

lemma rd_at_35:
  assumes "r = 11358149378044935347338468172759 / 2 ^ 107"
  shows "rd r = Finite (5044031582654955 / 2 ^ 56)"
  unfolding assms
  by (subst rd_normal [where e = "- 4"]) (simp_all add: round_even_def Let_def)

lemma rd_at_36:
  assumes "r = 19471113219505603967277331424215 / 2 ^ 109"
  shows "rd r = Finite (1080863910568919 / 2 ^ 55)"
  unfolding assms
  by (subst rd_normal [where e = "- 6"]) (simp_all add: round_even_def Let_def)

lemma rd_at_37:
  assumes "r = 9007199254740994"
  shows "rd r = Finite 9007199254740994"
  unfolding assms
  by (subst rd_normal [where e = "53"]) (simp_all add: round_even_def Let_def)

lemma rd_at_38:
  assumes "r = 10633823966279329344413697917065363455 / 2 ^ 70"
  shows "rd r = Finite 9007199254740994"
  unfolding assms
  by (subst rd_normal [where e = "53"]) (simp_all add: round_even_def Let_def)

lemma rd_at_39:
  assumes "r = - 9007199254740993"
  shows "rd r = Finite (- 9007199254740992)"
  unfolding assms
  by (subst rd_normal [where e = "53"]) (simp_all add: round_even_def Let_def)

lemma rd_min_subnormal:
  assumes "r = 1 / 2 ^ 1074"
  shows "rd r = Finite (1 / 2 ^ 1074)"
  unfolding assms
  by (subst rd_subnormal) (simp_all add: round_even_def Let_def power_int_minus_divide)

lemma rd_underflow:
  assumes "r = 1 / 2 ^ 1076"
  shows "rd r = Finite 0"
  unfolding assms
  by (subst rd_subnormal) (simp_all add: round_even_def Let_def power_int_minus_divide)

lemmas double_ops = zero_double_def one_double_def minus_double_def

lemmas rd_at =
  rd_at_1 rd_at_2 rd_at_3 rd_at_4 rd_at_5 rd_at_6 rd_at_7 rd_at_8 rd_at_9 rd_at_10 rd_at_11
  rd_at_12 rd_at_13 rd_at_14 rd_at_15 rd_at_16 rd_at_17 rd_at_18 rd_at_19 rd_at_20 rd_at_21
  rd_at_22 rd_at_23 rd_at_24 rd_at_25 rd_at_26 rd_at_27 rd_at_28 rd_at_29 rd_at_30 rd_at_31
  rd_at_32 rd_at_33 rd_at_34 rd_at_35 rd_at_36 rd_at_37 rd_at_38 rd_at_39 rd_min_subnormal
  rd_underflow

section \<open>Properties of the grid\<close>

subsection \<open>Auxiliary facts\<close>

lemma floor_mult_bounds:
  fixes y L :: real
  assumes L: "0 < L"
  shows "of_int \<lfloor>y / L\<rfloor> * L \<le> y" and "y < (of_int \<lfloor>y / L\<rfloor> + 1) * L"
proof -
  define q :: real where "q = of_int \<lfloor>y / L\<rfloor>"
  have "q \<le> y / L" and "y / L < q + 1" unfolding q_def by linarith+
  then have "q * L \<le> y" and "y < (q + 1) * L"
    using L by (simp_all add: pos_le_divide_eq pos_divide_less_eq)
  then show "of_int \<lfloor>y / L\<rfloor> * L \<le> y" and "y < (of_int \<lfloor>y / L\<rfloor> + 1) * L"
    unfolding q_def by simp_all
qed


lemma unsigned_real_pos: "n \<noteq> 0 \<Longrightarrow> (0::real) < unsigned (n :: 'a::len word)"
  by (metis of_nat_unat of_nat_0_less_iff unat_gt_0)

lemma Grid_ctor_valid: "Grid_ctor n lo hi bc = Inr g \<Longrightarrow> Grid_valid g"
  by (auto simp: Grid_ctor_def Grid_valid_def Let_def unat_gt_0 Suc_le_eq unsigned_real_pos split: if_splits)


lemma bc_periodic: "boundary_condition g = Periodic"
  by (cases "boundary_condition g") simp



lemma sint_word_of_int_64:
  "in_ptrdiff k \<Longrightarrow> sint (word_of_int k :: 64 word) = k"
  by (simp add: sint_sbintrunc' signed_take_bit_int_eq_self in_ptrdiff_def PTRDIFF_MIN_def PTRDIFF_MAX_def)

lemma unat_word_of_int_64:
  "0 \<le> k \<Longrightarrow> k < 2 ^ 64 \<Longrightarrow> unat (word_of_int k :: 64 word) = nat k"
  by (simp add: unat_eq_nat_uint uint_word_of_int)



lemma smod_pos_divisor:
  fixes k N :: int
  assumes N: "0 < N"
  shows "(if k smod N < 0 then k smod N + N else k smod N) = k mod N"
    and "- N < k smod N" and "k smod N < N"
proof -
  have m: "0 \<le> k mod N" "k mod N < N" using N by simp_all
  have e: "k smod N = (if k < 0 \<and> \<not> N dvd k then k mod N - N else k mod N)"
  proof (cases "k = 0")
    case True
    then show ?thesis by (simp add: signed_modulo_int_def)
  next
    case False
    then show ?thesis
      using N by (auto simp: signed_modulo_int_eq_modulo_int sgn_if)
  qed
  show "(if k smod N < 0 then k smod N + N else k smod N) = k mod N"
    using m by (auto simp: e)
  have nz: "\<not> N dvd k \<Longrightarrow> k mod N \<noteq> 0" by (simp add: dvd_eq_mod_eq_0)
  show "- N < k smod N" using m nz by (auto simp: e)
  show "k smod N < N" using m by (auto simp: e)
qed

lemma sint_small:
  assumes "int (unat (w :: 64 word)) \<le> PTRDIFF_MAX"
  shows "sint w = int (unat w)"
proof -
  define k where "k = int (unat w)"
  have "0 \<le> k" and "k \<le> PTRDIFF_MAX" using assms by (simp_all only: k_def of_nat_0_le_iff)
  then have "in_ptrdiff k" by (simp add: in_ptrdiff_def PTRDIFF_MIN_def)
  then have "sint (word_of_int k :: 64 word) = k"
    by (rule sint_word_of_int_64)
  moreover have "(word_of_int k :: 64 word) = w" by (simp add: k_def)
  ultimately show ?thesis by (simp only: k_def)
qed

lemma wrap_index_mod:
  assumes v: "0 < unat (n_cells g)" and b: "int (unat (n_cells g)) \<le> PTRDIFF_MAX"
  shows "wrap_index g i = Some (word_of_int (sint i mod int (unat (n_cells g))))"
proof -
  define N where "N = int (unat (n_cells g))"
  define r where "r = sint i smod N"
  have N1: "0 < N" using v unfolding N_def by linarith
  have NM: "N \<le> PTRDIFF_MAX" using b by (simp only: N_def)
  have sn: "sint (n_cells g) = N" unfolding N_def by (rule sint_small [OF b])
  have rb: "- N < r" "r < N" unfolding r_def using smod_pos_divisor(2,3) [OF N1] by simp_all
  have rp: "in_ptrdiff r" using rb NM by (simp add: in_ptrdiff_def PTRDIFF_MIN_def PTRDIFF_MAX_def)
  have sr: "sint (word_of_int r :: 64 word) = r" by (rule sint_word_of_int_64 [OF rp])
  have rem: "ptrdiff_rem i (n_cells g) = Some (word_of_int r)"
    using N1 by (simp add: ptrdiff_rem_def sn r_def)
  show ?thesis
  proof (cases "r < 0")
    case True
    have "in_ptrdiff (r + N)" using rb NM True
      by (simp add: in_ptrdiff_def PTRDIFF_MIN_def PTRDIFF_MAX_def)
    then have "ptrdiff_add (word_of_int r) (n_cells g) = Some (word_of_int (r + N))"
      by (simp add: ptrdiff_add_def sr sn)
    moreover have "r + N = sint i mod N"
      using smod_pos_divisor(1) [OF N1, of "sint i"] True by (simp add: r_def)
    ultimately have "ptrdiff_add (word_of_int r) (n_cells g) = Some (word_of_int (sint i mod N))"
      by (simp only:)
    then show ?thesis
      using True unfolding N_def [symmetric]
      by (simp add: wrap_index_def bc_periodic Let_def rem word_sless_alt sr)
  next
    case False
    have e: "sint i mod N = r"
      using smod_pos_divisor(1) [OF N1, of "sint i"] False by (simp add: r_def)
    show ?thesis
      using False unfolding N_def [symmetric] e
      by (simp add: wrap_index_def bc_periodic Let_def rem word_sless_alt sr)
  qed
qed

lemma wrap_index_range:
  assumes v: "0 < unat (n_cells g)" and b: "int (unat (n_cells g)) \<le> PTRDIFF_MAX"
  shows "unat (word_of_int (sint i mod int (unat (n_cells g))) :: 64 word) < unat (n_cells g)"
proof -
  define N where "N = int (unat (n_cells g))"
  have N1: "0 < N" using v unfolding N_def by linarith
  have NM: "N \<le> PTRDIFF_MAX" using b by (simp only: N_def)
  have m: "0 \<le> sint i mod N" "sint i mod N < N" using N1 by simp_all
  have "sint i mod N < 2 ^ 64" using m NM by (simp add: PTRDIFF_MAX_def)
  then have "unat (word_of_int (sint i mod N) :: 64 word) = nat (sint i mod N)"
    using m by (intro unat_word_of_int_64) simp_all
  moreover have "nat (sint i mod N) < unat (n_cells g)" using m unfolding N_def by linarith
  ultimately show ?thesis unfolding N_def by simp
qed


lemma grid_wide_ctor: "Grid_ctor 18446744073709551614 0 1 Periodic = Inr grid_wide"
  by (simp add: Grid_ctor_def grid_wide_def del: of_nat_unat)

lemmas grid_eval =
  cell_index_def wrap_position_def fmod_def trunc_def Let_def to_ptrdiff_def in_ptrdiff_def
  PTRDIFF_MIN_def PTRDIFF_MAX_def word_sless_alt word_le_nat_alt wrap_index_def
  ptrdiff_rem_def ptrdiff_add_def signed_modulo_int_def

subsection \<open>The grid in binary64\<close>

text \<open>The members of a grid constructed with at most \<open>2\<^sup>6\<^sup>0\<close> cells from finite bounds of
  magnitude at most \<open>2\<^sup>k\<close> whose difference lies between \<open>2\<^sup>q\<close> and \<open>2\<^sup>q\<^sup>+\<^sup>1\<close>: all are finite,
  within powers of two.\<close>

lemma Grid_ctor_ieee_fields:
  assumes c: "Grid_ctor_ieee n (Finite lo) (Finite hi) bc = Inr g"
    and n: "unat n \<le> 2 ^ 60" and lo: "\<bar>lo\<bar> \<le> 2 powi k" and hi: "\<bar>hi\<bar> \<le> 2 powi k"
    and w: "2 powi q \<le> hi - lo" and w': "hi - lo \<le> 2 powi (q + 1)"
    and q: "- 900 \<le> q" and k: "k \<le> 900"
  shows "\<exists>L d v. g = \<lparr> n_cells = n, x_min = Finite lo, x_max = Finite hi, length_g = Finite L,
                       dx = Finite d, inv_dx = Finite v, boundary_condition = bc \<rparr> \<and>
           1 \<le> unat n \<and> q \<le> k + 1 \<and>
           2 powi q \<le> L \<and> L \<le> 2 powi (q + 1) \<and> L \<le> 2 powi (k + 1) \<and>
           2 powi (q - 60) \<le> d \<and> d \<le> 2 powi (k + 1) \<and>
           2 powi (- k - 1) \<le> v \<and> v \<le> 2 powi (60 - q)"
proof -
  have n0: "n \<noteq> 0" using c by (auto simp: Grid_ctor_ieee_def Let_def split: if_splits)
  then have n1: "1 \<le> unat n" by (simp add: unat_gt_0 Suc_le_eq)
  have w2: "\<bar>hi - lo\<bar> \<le> 2 powi (k + 1)" by (rule pow2_sum(2) [OF hi lo]) simp_all
  then have "(2::real) powi q \<le> 2 powi (k + 1)" using w by linarith
  then have qk: "q \<le> k + 1" by (rule pow2_le_D)
  have "\<exists>L. rd (hi - lo) = Finite L \<and> 2 powi q \<le> L \<and> L \<le> 2 powi (q + 1)"
    using q qk k by (intro rd_between [OF w w']) simp_all
  then obtain L where L: "rd (hi - lo) = Finite L" "2 powi q \<le> L" "L \<le> 2 powi (q + 1)"
    by blast
  have "\<exists>L. rd (hi - lo) = Finite L \<and> \<bar>L\<bar> \<le> 2 powi (k + 1)"
    using q qk k by (intro rd_bound [OF w2]) simp_all
  then have L3: "L \<le> 2 powi (k + 1)" using L(1) by auto
  define N where "N = real (unat n)"
  have "real 1 \<le> N" unfolding N_def using n1 by (simp only: of_nat_le_iff)
  then have N1: "2 powi 0 \<le> N" by simp
  have "N \<le> real (2 ^ 60)" unfolding N_def using n by (simp only: of_nat_le_iff)
  then have N2: "N \<le> 2 powi 60" by simp
  have "\<exists>m. rd N = Finite m \<and> 2 powi 0 \<le> m \<and> m \<le> 2 powi 60"
    by (intro rd_between [OF N1 N2]) simp_all
  then obtain m where m: "rd N = Finite m" "2 powi 0 \<le> m" "m \<le> 2 powi 60" by blast
  have mp: "0 < m" "1 \<le> m" using m(2) by simp_all
  have Lp: "0 < L" using L(2) pow2_pos [of q] by linarith
  have "2 powi q / 2 powi 60 \<le> L / m"
    using L(2) m(3) mp Lp by (intro frac_le) simp_all
  then have d1: "2 powi (q - 60) \<le> L / m" by (simp only: pow2_diff)
  have "L / m \<le> L / 1" using mp Lp by (intro divide_left_mono) simp_all
  then have d2: "L / m \<le> 2 powi (k + 1)" using L3 by simp
  have "\<exists>d. rd (L / m) = Finite d \<and> 2 powi (q - 60) \<le> d \<and> d \<le> 2 powi (k + 1)"
    using q k by (intro rd_between [OF d1 d2]) simp_all
  then obtain d where d: "rd (L / m) = Finite d" "2 powi (q - 60) \<le> d" "d \<le> 2 powi (k + 1)"
    by blast
  have dp: "0 < d" using d(2) pow2_pos [of "q - 60"] by linarith
  have "1 / 2 powi (k + 1) \<le> 1 / d" using d(3) dp by (intro divide_left_mono) simp_all
  moreover have "1 / (2::real) powi (k + 1) = 2 powi (- k - 1)"
    using pow2_diff [of 0 "k + 1"] by simp
  ultimately have v1: "2 powi (- k - 1) \<le> 1 / d" by simp
  have "1 / d \<le> 1 / 2 powi (q - 60)" using d(2) dp by (intro divide_left_mono) simp_all
  moreover have "1 / (2::real) powi (q - 60) = 2 powi (60 - q)"
    using pow2_diff [of 0 "q - 60"] by simp
  ultimately have v2: "1 / d \<le> 2 powi (60 - q)" by simp
  have "\<exists>v. rd (1 / d) = Finite v \<and> 2 powi (- k - 1) \<le> v \<and> v \<le> 2 powi (60 - q)"
    using q k by (intro rd_between [OF v1 v2]) simp_all
  then obtain v where v: "rd (1 / d) = Finite v" "2 powi (- k - 1) \<le> v" "v \<le> 2 powi (60 - q)"
    by blast
  have len: "Finite hi - Finite lo = Finite L" by (simp add: Finite_minus L(1))
  have sz: "of_size n = Finite m" unfolding of_size_def N_def [symmetric] by (rule m(1))
  have dx: "Finite L / Finite m = Finite d" using mp d(1) by simp
  have inv: "1 / Finite d = Finite v" using dp v(1) by (simp add: one_double_def)
  have "g = \<lparr> n_cells = n, x_min = Finite lo, x_max = Finite hi, length_g = Finite L,
              dx = Finite d, inv_dx = Finite v, boundary_condition = bc \<rparr>"
    using c unfolding Grid_ctor_ieee_def Let_def len sz dx inv by (simp split: if_splits)
  then show ?thesis
    using n1 qk L(2,3) L3 d(2,3) v(2,3) by blast
qed

lemma Grid_ctor_ieee_dx_pos:
  assumes c: "Grid_ctor_ieee n (Finite a) (Finite b) bc = Inr g"
    and n: "unat n \<le> 2 ^ p" and p: "p \<le> 64"
    and a: "\<bar>a\<bar> \<le> 2 powi 1022" and b: "\<bar>b\<bar> \<le> 2 powi 1022"
    and w: "2 powi q \<le> b - a" and q: "- 1074 \<le> q - int p"
  shows "\<exists>d. dx g = Finite d \<and> 0 < d"
proof -
  have n0: "n \<noteq> 0" using c by (auto simp: Grid_ctor_ieee_def Let_def split: if_splits)
  then have n1: "1 \<le> unat n" by (simp add: unat_gt_0 Suc_le_eq)
  have w2: "\<bar>b - a\<bar> \<le> 2 powi 1023" using pow2_sum(2) [OF b a, of 1023] by simp
  then have w3: "b - a \<le> 2 powi 1023" by linarith
  have q0: "- 1074 \<le> q" using q by linarith
  from rd_between [OF w w3 q0]
  obtain L where L: "rd (b - a) = Finite L" "2 powi q \<le> L" "L \<le> 2 powi 1023" by auto
  define N where "N = real (unat n)"
  have "real 1 \<le> N" unfolding N_def using n1 by (simp only: of_nat_le_iff)
  then have N1: "2 powi 0 \<le> N" by simp
  have "N \<le> real (2 ^ p)" unfolding N_def using n by (simp only: of_nat_le_iff)
  then have N2: "N \<le> 2 powi (int p)" by simp
  have "\<exists>m. rd N = Finite m \<and> 2 powi 0 \<le> m \<and> m \<le> 2 powi (int p)"
    using p by (intro rd_between [OF N1 N2]) simp_all
  then obtain m where m: "rd N = Finite m" "2 powi 0 \<le> m" "m \<le> 2 powi (int p)" by blast
  have mp: "0 < m" "1 \<le> m" using m(2) by simp_all
  have Lp: "0 < L" using L(2) pow2_pos [of q] by linarith
  have "2 powi q / 2 powi (int p) \<le> L / m"
    using L(2) m(3) mp Lp by (intro frac_le) simp_all
  then have d1: "2 powi (q - int p) \<le> L / m" by (simp only: pow2_diff)
  have "L / m \<le> L / 1" using mp Lp by (intro divide_left_mono) simp_all
  then have d2: "L / m \<le> 2 powi 1023" using L(3) by simp
  have "\<exists>d. rd (L / m) = Finite d \<and> 2 powi (q - int p) \<le> d \<and> d \<le> 2 powi 1023"
    using q by (intro rd_between [OF d1 d2]) simp_all
  then obtain d where d: "rd (L / m) = Finite d" "2 powi (q - int p) \<le> d" by blast
  have dp: "0 < d" using d(2) pow2_pos [of "q - int p"] by linarith
  have len: "Finite b - Finite a = Finite L" by (simp add: Finite_minus L(1))
  have sz: "of_size n = Finite m" unfolding of_size_def N_def [symmetric] by (rule m(1))
  have dx: "Finite L / Finite m = Finite d" using mp d(1) by simp
  have "dx g = Finite d"
    using c unfolding Grid_ctor_ieee_def Let_def len sz dx by (auto split: if_splits)
  then show ?thesis using dp by blast
qed

lemma double_not_le_less:
  assumes "lo \<noteq> NaN" and "hi \<noteq> NaN" and "\<not> hi \<le> lo"
  shows "lo < (hi :: double)"
  using assms by (cases lo; cases hi) simp_all

lemma fmod_abs_less:
  assumes L: "0 < L"
  shows "\<bar>fmod y L\<bar> < L"
proof (cases "0 \<le> y")
  case True
  then have t: "trunc (y / L) = \<lfloor>y / L\<rfloor>" using L by (simp add: trunc_def)
  show ?thesis
    using floor_mult_bounds [OF L, of y] by (simp add: fmod_def t algebra_simps)
next
  case False
  then have yl: "y / L < 0" using L by (simp add: divide_neg_pos)
  then have t: "trunc (y / L) = \<lceil>y / L\<rceil>" by (simp add: trunc_def)
  define c :: real where "c = of_int \<lceil>y / L\<rceil>"
  have "y / L \<le> c" and "c < y / L + 1" unfolding c_def by linarith+
  then have "y \<le> c * L" and "c * L < y + L"
    using L by (simp_all add: pos_divide_le_eq pos_less_divide_eq field_simps)
  then show ?thesis
    unfolding fmod_def t c_def [symmetric] by simp
qed

lemma wrap_position_ieee_finite:
  assumes xm: "x_min g = Finite lo" and len: "length_g g = Finite L"
    and L: "0 < L" "L \<le> 2 powi (q + 1)" "L \<le> 2 powi (k + 1)" and lo: "\<bar>lo\<bar> \<le> 2 powi k"
    and q: "- 1000 \<le> q" and k: "- 1000 \<le> k" "k \<le> 900" and x: "\<bar>x\<bar> \<le> 2 powi 1022"
  shows "\<exists>w. wrap_position_ieee g (Finite x) = Finite w \<and> \<bar>w\<bar> \<le> 2 powi (k + 2) \<and>
           \<bar>w - lo\<bar> \<le> 2 powi (q + 1) + 2 powi (k - 51)"
proof -
  have "\<exists>a. Finite x - Finite lo = Finite a \<and> \<bar>a\<bar> \<le> 2 powi 1023"
    using k by (intro double_minus_bound [OF x lo]) simp_all
  then obtain a where a: "Finite x - Finite lo = Finite a" by blast
  define r where "r = fmod a L"
  have r: "\<bar>r\<bar> < L" unfolding r_def by (rule fmod_abs_less [OF L(1)])
  define r' where "r' = (if Finite r < 0 then Finite r + Finite L else Finite r)"
  have "\<exists>s. r' = Finite s \<and> \<bar>s\<bar> \<le> 2 powi (q + 1) \<and> \<bar>s\<bar> \<le> 2 powi (k + 1)"
  proof (cases "r < 0")
    case True
    have b: "\<bar>r + L\<bar> \<le> 2 powi (q + 1)" "\<bar>r + L\<bar> \<le> 2 powi (k + 1)"
      using True r L by linarith+
    have "\<exists>s. rd (r + L) = Finite s \<and> \<bar>s\<bar> \<le> 2 powi (k + 1)"
      using k by (intro rd_bound [OF b(2)]) simp_all
    then obtain s where s: "rd (r + L) = Finite s" "\<bar>s\<bar> \<le> 2 powi (k + 1)" by blast
    have "(2::real) powi (q + 1) \<le> 2 powi (k + 1) \<or> (2::real) powi (k + 1) \<le> 2 powi (q + 1)"
      by linarith
    then have "\<bar>s\<bar> \<le> 2 powi (q + 1)"
    proof
      assume "(2::real) powi (k + 1) \<le> 2 powi (q + 1)"
      then show ?thesis using s(2) by linarith
    next
      assume "(2::real) powi (q + 1) \<le> 2 powi (k + 1)"
      then have "q + 1 \<le> k + 1" by (rule pow2_le_D)
      then have "\<exists>s. rd (r + L) = Finite s \<and> \<bar>s\<bar> \<le> 2 powi (q + 1)"
        using q k by (intro rd_bound [OF b(1)]) simp_all
      then show ?thesis using s(1) by auto
    qed
    then show ?thesis using True s by (simp add: r'_def zero_double_def)
  next
    case False
    then show ?thesis using r L by (simp add: r'_def zero_double_def)
  qed
  then obtain s where s: "r' = Finite s" "\<bar>s\<bar> \<le> 2 powi (q + 1)" "\<bar>s\<bar> \<le> 2 powi (k + 1)"
    by blast
  have ls: "\<bar>lo + s\<bar> \<le> 2 powi (k + 2)" by (rule pow2_sum(1) [OF lo s(3)]) simp_all
  have "\<exists>w. rd (lo + s) = Finite w \<and> \<bar>w\<bar> \<le> 2 powi (k + 2) \<and>
          \<bar>w - (lo + s)\<bar> \<le> 2 powi (k + 2 - 53)"
    using k by (intro rd_error [OF ls]) simp_all
  then obtain w where w: "rd (lo + s) = Finite w" "\<bar>w\<bar> \<le> 2 powi (k + 2)"
    "\<bar>w - (lo + s)\<bar> \<le> 2 powi (k + 2 - 53)"
    by blast
  have e: "k + 2 - 53 = k - 51" by simp
  have d: "\<bar>w - lo\<bar> \<le> 2 powi (q + 1) + 2 powi (k - 51)"
    using w(3) s(2) unfolding e by linarith
  have "wrap_position_ieee g (Finite x) = Finite lo + r'"
    using L(1) unfolding wrap_position_ieee_def bc_periodic Let_def xm len a r'_def r_def
    by simp
  then have "wrap_position_ieee g (Finite x) = Finite w" using s(1) w(1) by simp
  then show ?thesis using w(2) d by blast
qed

text \<open>The conversion to \<open>std::ptrdiff_t\<close> and the two clamps of \<open>cell_index\<close>.\<close>

lemma clamp_index:
  fixes n :: "64 word"
  assumes T: "- (2 ^ 62) \<le> T" "T \<le> 2 ^ 62" and n: "n \<noteq> 0"
  defines "a \<equiv> (if (word_of_int T :: 64 word) <s 0 then 0 else word_of_int T)"
  defines "b \<equiv> (if n \<le> a then n - 1 else a)"
  shows "unat b < unat n \<and> int (unat b) = max 0 (min (int (unat n) - 1) T)"
proof -
  define N where "N = unat n"
  have N: "0 < N" using n by (simp add: N_def unat_gt_0)
  have ip: "in_ptrdiff T"
    using T by (simp add: in_ptrdiff_def PTRDIFF_MIN_def PTRDIFF_MAX_def)
  have s: "sint (word_of_int T :: 64 word) = T" by (rule sint_word_of_int_64 [OF ip])
  have goal: "unat b < N \<and> int (unat b) = max 0 (min (int N - 1) T)"
  proof (cases "T < 0")
    case True
    then have a: "a = 0" by (simp add: a_def word_sless_alt s)
    have b: "b = 0" using n by (simp add: b_def a)
    show ?thesis using True N by (simp add: b)
  next
    case False
    then have a: "a = word_of_int T" by (simp add: a_def word_sless_alt s)
    have u: "unat a = nat T" unfolding a using False T by (intro unat_word_of_int_64) simp_all
    show ?thesis
    proof (cases "N \<le> nat T")
      case True
      then have "n \<le> a" by (simp add: word_le_nat_alt u N_def)
      then have b: "b = n - 1" by (simp add: b_def)
      have "unat b = N - 1" unfolding b N_def by (rule unat_minus_one [OF n])
      then show ?thesis using True N False by simp
    next
      case F: False
      then have "\<not> n \<le> a" by (simp add: word_le_nat_alt u N_def)
      then have b: "b = a" by (simp add: b_def)
      show ?thesis using F N False by (simp add: b u)
    qed
  qed
  then show ?thesis by (simp only: N_def)
qed

lemma abs_trunc_le:
  assumes "\<bar>t\<bar> \<le> of_int M"
  shows "\<bar>trunc t\<bar> \<le> M"
proof (cases "0 \<le> t")
  case True
  then have "\<lfloor>t\<rfloor> \<le> M" and "0 \<le> \<lfloor>t\<rfloor>" using assms by (simp_all add: floor_le_iff)
  then show ?thesis using True by (simp add: trunc_def)
next
  case False
  then have "- M \<le> \<lceil>t\<rceil>" and "\<lceil>t\<rceil> \<le> 0"
    using assms by (simp_all add: le_ceiling_iff ceiling_le_iff)
  then show ?thesis using False by (simp add: trunc_def)
qed

lemma clamp_floor:
  assumes N: "0 < N"
  shows "max 0 (min (N - 1) (trunc t)) = max 0 (min (N - 1) \<lfloor>t\<rfloor>)"
proof (cases "0 \<le> t")
  case True
  then show ?thesis by (simp add: trunc_def)
next
  case False
  then have "\<lceil>t\<rceil> \<le> 0" and "\<lfloor>t\<rfloor> < 0" by (simp_all add: ceiling_le_iff floor_less_iff)
  then have "max 0 (min (N - 1) \<lceil>t\<rceil>) = max 0 (min (N - 1) \<lfloor>t\<rfloor>)"
    using N by linarith
  then show ?thesis using False by (simp only: trunc_def if_False)
qed

lemma cell_index_ieee_total:
  assumes xm: "x_min g = Finite lo" and len: "length_g g = Finite L" and inv: "inv_dx g = Finite v"
    and L: "0 < L" "L \<le> 2 powi (q + 1)" "L \<le> 2 powi (k + 1)" and lo: "\<bar>lo\<bar> \<le> 2 powi k"
    and v: "\<bar>v\<bar> \<le> 2 powi (60 - q)" and n: "n_cells g \<noteq> 0"
    and q: "- 1000 \<le> q" and k: "- 1000 \<le> k" "k \<le> 900"
    and kq: "k \<le> q + 52" and qk: "q \<le> k + 1"
    and x: "\<bar>x\<bar> \<le> 2 powi 1022"
  shows "\<exists>w t i. wrap_position_ieee g (Finite x) = Finite w \<and> \<bar>w\<bar> \<le> 2 powi (k + 2) \<and>
           (Finite w - x_min g) * inv_dx g = Finite t \<and>
           cell_index_ieee g (Finite x) = Some i \<and> unat i < unat (n_cells g) \<and>
           int (unat i) = max 0 (min (int (unat (n_cells g)) - 1) \<lfloor>t\<rfloor>)"
proof -
  from wrap_position_ieee_finite [OF xm len L lo q k x]
  obtain w where w: "wrap_position_ieee g (Finite x) = Finite w" "\<bar>w\<bar> \<le> 2 powi (k + 2)"
    "\<bar>w - lo\<bar> \<le> 2 powi (q + 1) + 2 powi (k - 51)"
    by blast
  have "k - 51 \<le> q + 1" using kq by simp
  then have "(2::real) powi (k - 51) \<le> 2 powi (q + 1)" by (rule pow2_le)
  then have "\<bar>w - lo\<bar> \<le> 2 * 2 powi (q + 1)" using w(3) by linarith
  moreover have "(2::real) powi (q + 2) = 2 * 2 powi (q + 1)"
  proof -
    have "q + 2 = q + 1 + 1" by simp
    then show ?thesis by (simp only: pow2_double)
  qed
  ultimately have wl: "\<bar>w - lo\<bar> \<le> 2 powi (q + 2)" by linarith
  have "\<exists>y. rd (w - lo) = Finite y \<and> \<bar>y\<bar> \<le> 2 powi (q + 2)"
    using q k qk by (intro rd_bound [OF wl]) simp_all
  then obtain y where y: "Finite w - Finite lo = Finite y" "\<bar>y\<bar> \<le> 2 powi (q + 2)"
    unfolding Finite_minus by blast
  have "\<exists>t. Finite y * Finite v = Finite t \<and> \<bar>t\<bar> \<le> 2 powi 62"
    by (intro double_times_bound [OF y(2) v]) simp_all
  then obtain t where t: "Finite y * Finite v = Finite t" "\<bar>t\<bar> \<le> 2 powi 62" by blast
  have "\<bar>t\<bar> \<le> of_int (2 ^ 62)" using t(2) by simp
  then have T: "\<bar>trunc t\<bar> \<le> 2 ^ 62" by (rule abs_trunc_le)
  then have T2: "- (2 ^ 62) \<le> trunc t" "trunc t \<le> 2 ^ 62" by linarith+
  have ip: "in_ptrdiff (trunc t)"
    using T2 by (simp add: in_ptrdiff_def PTRDIFF_MIN_def PTRDIFF_MAX_def)
  define a :: "64 word" where
    "a = (if (word_of_int (trunc t) :: 64 word) <s 0 then 0 else word_of_int (trunc t))"
  define b where "b = (if n_cells g \<le> a then n_cells g - 1 else a)"
  have "0 < unat (n_cells g)" using n by (simp add: unat_gt_0)
  then have N: "0 < int (unat (n_cells g))" by (simp only: of_nat_0_less_iff)
  from clamp_index [OF T2 n]
  have c: "unat b < unat (n_cells g)"
    "int (unat b) = max 0 (min (int (unat (n_cells g)) - 1) (trunc t))"
    unfolding a_def b_def by blast+
  have qq: "(Finite w - x_min g) * inv_dx g = Finite t" by (simp only: xm inv y(1) t(1))
  have "cell_index_ieee g (Finite x) = Some b"
    unfolding cell_index_ieee_def w(1) Let_def qq a_def b_def
    using ip by (simp add: double_to_ptrdiff_def to_ptrdiff_def)
  then show ?thesis
    using w(1,2) qq c(1) c(2) [unfolded clamp_floor [OF N]] by blast
qed




text \<open>Evaluation at given numbers.\<close>

lemmas ieee_eval =
  Grid_ctor_ieee_def wrap_position_ieee_def cell_index_ieee_def cell_left_ieee_def
  interpolation_weights_ieee_def Field_interpolate_ieee_def double_ops of_size_def
  double_to_ptrdiff_def to_ptrdiff_def in_ptrdiff_def PTRDIFF_MIN_def PTRDIFF_MAX_def
  fmod_def trunc_def ceiling_def Let_def word_sless_alt word_le_nat_alt wrap_index_def
  ptrdiff_rem_def ptrdiff_add_def signed_modulo_int_def vector_at_def vector_size_def

lemma grid_4_ieee_ctor: "Grid_ctor_ieee 4 (Finite 0) (Finite 4) Periodic = Inr grid_4_ieee"
  by (simp add: ieee_eval grid_4_ieee_def rd_at)

lemma grid_max_ieee_ctor:
  "Grid_ctor_ieee 18446744073709551615 (Finite 0) (Finite 1) Periodic = Inr grid_max_ieee"
  by (simp add: ieee_eval grid_max_ieee_def rd_at)


lemma grid_tiny_ctor:
  "Grid_ctor_ieee 4 (Finite 0) (Finite (1 / 2 ^ 1074)) Periodic = Inr grid_tiny"
  by (simp add: ieee_eval grid_tiny_def rd_at)


lemma grid_nan_ctor: "Grid_ctor_ieee 4 NaN (Finite 1) Periodic = Inr grid_nan"
  by (simp add: ieee_eval grid_nan_def rd_at)

subsection \<open>Construction\<close>

text \<open>
  The specification lets every construction that does not fail give a grid with
  \<open>x_min < x_max\<close> and \<open>dx > 0\<close> (C5).  \<open>Grid(4, 0.0, 2\<^sup>-\<^sup>1\<^sup>0\<^sup>7\<^sup>4)\<close> is constructed: its bounds are
  doubles and \<open>x_min < x_max\<close>, but \<open>2\<^sup>-\<^sup>1\<^sup>0\<^sup>7\<^sup>4 / 4\<close> rounds to zero, so \<open>dx\<close> is \<open>0\<close> and \<open>inv_dx\<close>
  is infinite.  \<open>Grid(4, NaN, 1.0)\<close> is constructed too, because \<open>NaN >= 1.0\<close> is false, and
  \<open>x_min < x_max\<close> is false of it.
\<close>

theorem Grid_ctor_underflow_counterexample:
  "rd (1 / 2 ^ 1074) = Finite (1 / 2 ^ 1074) \<and>
   Grid_ctor_ieee 4 (Finite 0) (Finite (1 / 2 ^ 1074)) Periodic = Inr grid_tiny \<and>
   x_min grid_tiny < x_max grid_tiny \<and> dx grid_tiny = Finite 0 \<and> \<not> 0 < dx grid_tiny \<and>
   inv_dx grid_tiny = PInf \<and>
   Grid_ctor_ieee 4 NaN (Finite 1) Periodic = Inr grid_nan \<and>
   \<not> x_min grid_nan < x_max grid_nan \<and> \<not> 0 < dx grid_nan"
proof -
  have "rd (1 / 2 ^ 1074) = Finite (1 / 2 ^ 1074)" by (rule rd_min_subnormal) simp
  moreover have "x_min grid_tiny < x_max grid_tiny" by (simp add: grid_tiny_def)
  moreover have "dx grid_tiny = Finite 0" and "\<not> 0 < dx grid_tiny" and "inv_dx grid_tiny = PInf"
    by (simp_all add: grid_tiny_def zero_double_def)
  moreover have "\<not> x_min grid_nan < x_max grid_nan" and "\<not> 0 < dx grid_nan"
    by (simp_all add: grid_nan_def zero_double_def)
  ultimately show ?thesis using grid_tiny_ctor grid_nan_ctor by blast
qed

text \<open>
  C5.  The constructor throws \<open>std::invalid_argument\<close> exactly when \<open>n_cells == 0\<close> or
  \<open>x_min >= x_max\<close> holds as a comparison of doubles, and throws nothing else.  In every
  other case it returns a grid that stores its arguments, with \<open>n \<ge> 1\<close>, and with
  \<open>x_min < x_max\<close> when neither bound is NaN.  When the bounds are finite, of magnitude at most
  \<open>2\<^sup>1\<^sup>0\<^sup>2\<^sup>2\<close>, with \<open>x_max - x_min \<ge> 2\<^sup>q\<close>, \<open>n \<le> 2\<^sup>p\<close> and \<open>q - p \<ge> - 1074\<close>, the quotient does not
  underflow and \<open>dx > 0\<close>.
\<close>

theorem Grid_ctor_ieee_contract:
  "((\<exists>s. Grid_ctor_ieee n lo hi bc = Inl (invalid_argument s)) \<longleftrightarrow> n = 0 \<or> lo \<ge> hi) \<and>
   ((\<exists>g. Grid_ctor_ieee n lo hi bc = Inr g) \<longleftrightarrow> \<not> (n = 0 \<or> lo \<ge> hi)) \<and>
   (Grid_ctor_ieee n lo hi bc = Inr g \<longrightarrow>
      n_cells g = n \<and> 1 \<le> unat n \<and> x_min g = lo \<and> x_max g = hi \<and>
      boundary_condition g = bc \<and> length_g g = hi - lo \<and> dx g = length_g g / of_size n \<and>
      inv_dx g = 1 / dx g \<and> (lo \<noteq> NaN \<and> hi \<noteq> NaN \<longrightarrow> lo < hi)) \<and>
   (Grid_ctor_ieee n (Finite a) (Finite b) bc = Inr g' \<and> unat n \<le> 2 ^ p \<and> p \<le> 64 \<and>
    \<bar>a\<bar> \<le> 2 powi 1022 \<and> \<bar>b\<bar> \<le> 2 powi 1022 \<and> 2 powi q \<le> b - a \<and> - 1074 \<le> q - int p \<longrightarrow>
      (\<exists>d. dx g' = Finite d \<and> 0 < d))"
proof -
  have e: "(\<exists>s. Grid_ctor_ieee n lo hi bc = Inl (invalid_argument s)) \<longleftrightarrow> n = 0 \<or> lo \<ge> hi"
    by (auto simp: Grid_ctor_ieee_def Let_def)
  have s: "(\<exists>g. Grid_ctor_ieee n lo hi bc = Inr g) \<longleftrightarrow> \<not> (n = 0 \<or> lo \<ge> hi)"
    by (auto simp: Grid_ctor_ieee_def Let_def)
  have f: "n_cells g = n \<and> 1 \<le> unat n \<and> x_min g = lo \<and> x_max g = hi \<and>
      boundary_condition g = bc \<and> length_g g = hi - lo \<and> dx g = length_g g / of_size n \<and>
      inv_dx g = 1 / dx g \<and> (lo \<noteq> NaN \<and> hi \<noteq> NaN \<longrightarrow> lo < hi)"
    if c: "Grid_ctor_ieee n lo hi bc = Inr g"
  proof -
    have n0: "n \<noteq> 0" and le: "\<not> hi \<le> lo"
      using c by (auto simp: Grid_ctor_ieee_def Let_def split: if_splits)
    have n1: "1 \<le> unat n" using n0 by (simp add: unat_gt_0 Suc_le_eq)
    have g: "g = \<lparr> n_cells = n, x_min = lo, x_max = hi, length_g = hi - lo,
                dx = (hi - lo) / of_size n, inv_dx = 1 / ((hi - lo) / of_size n),
                boundary_condition = bc \<rparr>"
      using c by (auto simp: Grid_ctor_ieee_def Let_def split: if_splits)
    have "lo < hi" if "lo \<noteq> NaN" and "hi \<noteq> NaN"
      using that le by (rule double_not_le_less)
    then show ?thesis using n1 by (simp add: g)
  qed
  have d: "\<exists>d. dx g' = Finite d \<and> 0 < d"
    if "Grid_ctor_ieee n (Finite a) (Finite b) bc = Inr g'" and "unat n \<le> 2 ^ p" and "p \<le> 64"
      and "\<bar>a\<bar> \<le> 2 powi 1022" and "\<bar>b\<bar> \<le> 2 powi 1022" and "2 powi q \<le> b - a"
      and "- 1074 \<le> q - int p"
    using that by (rule Grid_ctor_ieee_dx_pos)
  show ?thesis using e s f d by blast
qed

theorem Grid_ctor_ieee_contract_witness:
  "Grid_ctor_ieee 4 (Finite 0) (Finite 4) Periodic = Inr grid_4_ieee \<and>
   unat (4 :: 64 word) \<le> 2 ^ 2 \<and> (2 :: nat) \<le> 64 \<and> \<bar>0 :: real\<bar> \<le> 2 powi 1022 \<and>
   \<bar>4 :: real\<bar> \<le> 2 powi 1022 \<and> (2 :: real) powi 2 \<le> 4 - 0 \<and> (- 1074 :: int) \<le> 2 - int 2 \<and>
   n_cells grid_4_ieee = 4 \<and> x_min grid_4_ieee < x_max grid_4_ieee \<and>
   (\<exists>d. dx grid_4_ieee = Finite d \<and> 0 < d) \<and>
   (\<exists>s. Grid_ctor_ieee 0 (Finite 0) (Finite 4) Periodic = Inl (invalid_argument s)) \<and>
   (\<exists>s. Grid_ctor_ieee 4 (Finite 4) (Finite 4) Periodic = Inl (invalid_argument s))"
proof -
  have c: "Grid_ctor_ieee 4 (Finite 0) (Finite 4) Periodic = Inr grid_4_ieee"
    by (rule grid_4_ieee_ctor)
  have h: "unat (4 :: 64 word) \<le> 2 ^ 2" "(2 :: nat) \<le> 64" "\<bar>0 :: real\<bar> \<le> 2 powi 1022"
    "\<bar>4 :: real\<bar> \<le> 2 powi 1022" "(2 :: real) powi 2 \<le> 4 - 0" "(- 1074 :: int) \<le> 2 - int 2"
    by simp_all
  have nn: "Finite 0 \<noteq> NaN" "Finite 4 \<noteq> NaN" by simp_all
  note t = Grid_ctor_ieee_contract [of 4 "Finite 0" "Finite 4" Periodic grid_4_ieee 0 4 grid_4_ieee 2 2]
  from t c nn have "n_cells grid_4_ieee = 4" and "x_min grid_4_ieee = Finite 0"
    and "x_max grid_4_ieee = Finite 4" and "Finite 0 < Finite 4"
    by blast+
  then have f: "n_cells grid_4_ieee = 4" "x_min grid_4_ieee < x_max grid_4_ieee"
    by simp_all
  from t c h have d: "\<exists>d. dx grid_4_ieee = Finite d \<and> 0 < d" by blast
  have z: "(0 :: 64 word) = 0 \<or> Finite 0 \<ge> Finite 4" by simp
  have y: "(4 :: 64 word) = 0 \<or> Finite 4 \<ge> Finite 4" by simp
  have e0: "\<exists>s. Grid_ctor_ieee 0 (Finite 0) (Finite 4) Periodic = Inl (invalid_argument s)"
    using Grid_ctor_ieee_contract [of 0 "Finite 0" "Finite 4" Periodic grid_4_ieee 0 4 grid_4_ieee 2 2] z
    by blast
  have e4: "\<exists>s. Grid_ctor_ieee 4 (Finite 4) (Finite 4) Periodic = Inl (invalid_argument s)"
    using Grid_ctor_ieee_contract [of 4 "Finite 4" "Finite 4" Periodic grid_4_ieee 0 4 grid_4_ieee 2 2] y
    by blast
  show ?thesis
    using c h f d e0 e4 by blast
qed

subsection \<open>Periodic wrapping of positions\<close>

text \<open>
  C2.  The specification lets \<open>wrap_position\<close> return a value in \<open>[x_min, x_max)\<close>, be
  idempotent and keep the cell, and the header documents the same half-open interval:
  ``Wraps position x into the domain [x_min, x_max)''.  The program does not do so.  On
  \<open>Grid(4, 0.0, 4.0)\<close> at the double \<open>x = - 2\<^sup>-\<^sup>7\<^sup>0\<close>, \<open>fmod\<close> returns \<open>x\<close>, the sum \<open>x + 4.0\<close> rounds
  to \<open>4.0\<close>, and \<open>wrap_position\<close> returns \<open>4.0\<close>, which is \<open>x_max\<close> and is not contained in the
  grid.  Wrapping again gives \<open>0.0\<close>; \<open>cell_index\<close> is \<open>3\<close> at \<open>x\<close> and \<open>0\<close> at the wrapped
  position.
\<close>

theorem wrap_position_ieee_reaches_x_max:
  "Grid_ctor_ieee 4 (Finite 0) (Finite 4) Periodic = Inr grid_4_ieee \<and>
   rd (- (1 / 2 ^ 70)) = Finite (- (1 / 2 ^ 70)) \<and>
   wrap_position_ieee grid_4_ieee (Finite (- (1 / 2 ^ 70))) = Finite 4 \<and>
   x_max grid_4_ieee = Finite 4 \<and>
   \<not> contains_ieee grid_4_ieee (wrap_position_ieee grid_4_ieee (Finite (- (1 / 2 ^ 70)))) \<and>
   wrap_position_ieee grid_4_ieee (wrap_position_ieee grid_4_ieee (Finite (- (1 / 2 ^ 70)))) =
     Finite 0 \<and>
   cell_index_ieee grid_4_ieee (Finite (- (1 / 2 ^ 70))) = Some 3 \<and>
   cell_index_ieee grid_4_ieee (wrap_position_ieee grid_4_ieee (Finite (- (1 / 2 ^ 70)))) =
     Some 0"
proof -
  have a: "rd (- (1 / 2 ^ 70)) = Finite (- (1 / 2 ^ 70))" by (simp add: rd_at)
  have b: "wrap_position_ieee grid_4_ieee (Finite (- (1 / 2 ^ 70))) = Finite 4"
    by (simp add: ieee_eval grid_4_ieee_def rd_at)
  have c: "x_max grid_4_ieee = Finite 4" by (simp add: grid_4_ieee_def)
  have d: "\<not> contains_ieee grid_4_ieee (Finite 4)"
    by (simp add: contains_ieee_def grid_4_ieee_def)
  have e: "wrap_position_ieee grid_4_ieee (Finite 4) = Finite 0"
    by (simp add: ieee_eval grid_4_ieee_def rd_at)
  have f: "cell_index_ieee grid_4_ieee (Finite (- (1 / 2 ^ 70))) = Some 3"
    by (simp add: ieee_eval grid_4_ieee_def rd_at)
  have g: "cell_index_ieee grid_4_ieee (Finite 4) = Some 0"
    by (simp add: ieee_eval grid_4_ieee_def rd_at)
  show ?thesis
    unfolding b using grid_4_ieee_ctor a c d e f g by blast
qed

subsection \<open>Cell index\<close>

text \<open>
  The specification lets \<open>cell_index\<close> never fail (C3).  On
  \<open>Grid(18446744073709551615, 0.0, 1.0)\<close> the cell count is converted to \<open>2\<^sup>6\<^sup>4\<close>, \<open>inv_dx\<close> is
  \<open>2\<^sup>6\<^sup>4\<close>, and at \<open>x = 0.75\<close> the product \<open>(x_wrapped - x_min) * inv_dx\<close> is \<open>3 * 2\<^sup>6\<^sup>2\<close>, which is not
  a value of \<open>std::ptrdiff_t\<close>: the conversion is undefined.
\<close>

theorem cell_index_overflow_counterexample:
  "Grid_ctor_ieee 18446744073709551615 (Finite 0) (Finite 1) Periodic = Inr grid_max_ieee \<and>
   wrap_position_ieee grid_max_ieee (Finite (3 / 4)) = Finite (3 / 4) \<and>
   (Finite (3 / 4) - x_min grid_max_ieee) * inv_dx grid_max_ieee = Finite 13835058055282163712 \<and>
   \<not> in_ptrdiff (trunc 13835058055282163712) \<and>
   cell_index_ieee grid_max_ieee (Finite (3 / 4)) = None"
proof -
  have "wrap_position_ieee grid_max_ieee (Finite (3 / 4)) = Finite (3 / 4)"
    by (simp add: ieee_eval grid_max_ieee_def rd_at)
  moreover have "(Finite (3 / 4) - x_min grid_max_ieee) * inv_dx grid_max_ieee =
      Finite 13835058055282163712"
    by (simp add: ieee_eval grid_max_ieee_def rd_at)
  moreover have "\<not> in_ptrdiff (trunc 13835058055282163712)"
    by (simp add: in_ptrdiff_def trunc_def PTRDIFF_MAX_def)
  moreover have "cell_index_ieee grid_max_ieee (Finite (3 / 4)) = None"
    by (simp add: ieee_eval grid_max_ieee_def rd_at)
  ultimately show ?thesis using grid_max_ieee_ctor by blast
qed

text \<open>
  C3.  Let a grid be constructed with at most \<open>2\<^sup>6\<^sup>0\<close> cells from finite bounds of magnitude at
  most \<open>2\<^sup>k\<close> whose difference lies between \<open>2\<^sup>q\<close> and \<open>2\<^sup>q\<^sup>+\<^sup>1\<close>, where \<open>k \<le> q + 52\<close> (the bounds
  are not too large for the width), \<open>q \<ge> - 900\<close> and \<open>k \<le> 900\<close>, and let \<open>x\<close> be finite of magnitude
  at most \<open>2\<^sup>1\<^sup>0\<^sup>2\<^sup>2\<close>.  Then \<open>cell_index x\<close> returns: the wrapped position and the product
  \<open>t = (x_wrapped - x_min) * inv_dx\<close> are finite, the conversion of \<open>t\<close> is defined, and the
  result is the floor of \<open>t\<close> clamped to \<open>[0, n - 1]\<close>.  On \<open>Grid(4, 0.0, 4.0)\<close>,
  \<open>cell_index(3.99)\<close> is \<open>3\<close> and \<open>cell_index(4.5)\<close> is \<open>0\<close>.
\<close>

theorem cell_index_ieee_safe:
  assumes c: "Grid_ctor_ieee n (Finite lo) (Finite hi) bc = Inr g"
    and n: "unat n \<le> 2 ^ 60" and lo: "\<bar>lo\<bar> \<le> 2 powi k" and hi: "\<bar>hi\<bar> \<le> 2 powi k"
    and w: "2 powi q \<le> hi - lo" and w': "hi - lo \<le> 2 powi (q + 1)" and kq: "k \<le> q + 52"
    and q: "- 900 \<le> q" and k: "k \<le> 900" and x: "\<bar>x\<bar> \<le> 2 powi 1022"
  shows "(\<exists>w t i. wrap_position_ieee g (Finite x) = Finite w \<and>
            (Finite w - x_min g) * inv_dx g = Finite t \<and>
            cell_index_ieee g (Finite x) = Some i \<and> unat i \<le> unat n - 1 \<and>
            int (unat i) = max 0 (min (int (unat n) - 1) \<lfloor>t\<rfloor>)) \<and>
         Grid_ctor_ieee 4 (Finite 0) (Finite 4) Periodic = Inr grid_4_ieee \<and>
         cell_index_ieee grid_4_ieee (rd (399 / 100)) = Some 3 \<and>
         cell_index_ieee grid_4_ieee (rd (9 / 2)) = Some 0"
proof -
  from Grid_ctor_ieee_fields [OF c n lo hi w w' q k]
  obtain L d v where g: "g = \<lparr> n_cells = n, x_min = Finite lo, x_max = Finite hi,
        length_g = Finite L, dx = Finite d, inv_dx = Finite v, boundary_condition = bc \<rparr>"
    and n1: "1 \<le> unat n" and qk: "q \<le> k + 1"
    and L: "2 powi q \<le> L" "L \<le> 2 powi (q + 1)" "L \<le> 2 powi (k + 1)"
    and v: "2 powi (- k - 1) \<le> v" "v \<le> 2 powi (60 - q)"
    by blast
  have xm: "x_min g = Finite lo" and len: "length_g g = Finite L" and inv: "inv_dx g = Finite v"
    and nc: "n_cells g = n"
    by (simp_all add: g)
  have Lp: "0 < L" using L(1) pow2_pos [of q] by linarith
  have vp: "0 < v" using v(1) pow2_pos [of "- k - 1"] by linarith
  then have va: "\<bar>v\<bar> \<le> 2 powi (60 - q)" using v(2) by simp
  have n0: "n_cells g \<noteq> 0" using n1 by (auto simp: nc)
  have q1: "- 1000 \<le> q" using q by simp
  have k1: "- 1000 \<le> k" using q qk by linarith
  from cell_index_ieee_total [OF xm len inv Lp L(2,3) lo va n0 q1 k1 k kq qk x]
  obtain w t i where r: "wrap_position_ieee g (Finite x) = Finite w"
    "(Finite w - x_min g) * inv_dx g = Finite t"
    "cell_index_ieee g (Finite x) = Some i" "unat i < unat n"
    "int (unat i) = max 0 (min (int (unat n) - 1) \<lfloor>t\<rfloor>)"
    unfolding nc by blast
  have "unat i \<le> unat n - 1" using r(4) by linarith
  then have general: "\<exists>w t i. wrap_position_ieee g (Finite x) = Finite w \<and>
            (Finite w - x_min g) * inv_dx g = Finite t \<and>
            cell_index_ieee g (Finite x) = Some i \<and> unat i \<le> unat n - 1 \<and>
            int (unat i) = max 0 (min (int (unat n) - 1) \<lfloor>t\<rfloor>)"
    using r by blast
  have s1: "cell_index_ieee grid_4_ieee (rd (399 / 100)) = Some 3"
    by (simp add: ieee_eval grid_4_ieee_def rd_at)
  have s2: "cell_index_ieee grid_4_ieee (rd (9 / 2)) = Some 0"
    by (simp add: ieee_eval grid_4_ieee_def rd_at)
  show ?thesis using general grid_4_ieee_ctor s1 s2 by blast
qed

theorem cell_index_ieee_safe_witness:
  "Grid_ctor_ieee 4 (Finite 0) (Finite 4) Periodic = Inr grid_4_ieee \<and>
   unat (4 :: 64 word) \<le> 2 ^ 60 \<and> \<bar>0 :: real\<bar> \<le> 2 powi 2 \<and> \<bar>4 :: real\<bar> \<le> 2 powi 2 \<and>
   (2 :: real) powi 2 \<le> 4 - 0 \<and> (4 :: real) - 0 \<le> 2 powi (2 + 1) \<and> (2 :: int) \<le> 2 + 52 \<and>
   (- 900 :: int) \<le> 2 \<and> (2 :: int) \<le> 900 \<and> \<bar>- (1 / 2 ^ 70) :: real\<bar> \<le> 2 powi 1022 \<and>
   wrap_position_ieee grid_4_ieee (Finite (- (1 / 2 ^ 70))) = Finite 4 \<and>
   (Finite 4 - x_min grid_4_ieee) * inv_dx grid_4_ieee = Finite 4 \<and>
   cell_index_ieee grid_4_ieee (Finite (- (1 / 2 ^ 70))) = Some 3 \<and>
   (\<exists>w t i. wrap_position_ieee grid_4_ieee (Finite (- (1 / 2 ^ 70))) = Finite w \<and>
      (Finite w - x_min grid_4_ieee) * inv_dx grid_4_ieee = Finite t \<and>
      cell_index_ieee grid_4_ieee (Finite (- (1 / 2 ^ 70))) = Some i \<and>
      unat i \<le> unat (4 :: 64 word) - 1 \<and>
      int (unat i) = max 0 (min (int (unat (4 :: 64 word)) - 1) \<lfloor>t\<rfloor>))"
proof -
  have c: "Grid_ctor_ieee 4 (Finite 0) (Finite 4) Periodic = Inr grid_4_ieee"
    by (rule grid_4_ieee_ctor)
  have h: "unat (4 :: 64 word) \<le> 2 ^ 60" "\<bar>0 :: real\<bar> \<le> 2 powi 2" "\<bar>4 :: real\<bar> \<le> 2 powi 2"
    "(2 :: real) powi 2 \<le> 4 - 0" "(4 :: real) - 0 \<le> 2 powi (2 + 1)" "(2 :: int) \<le> 2 + 52"
    "(- 900 :: int) \<le> 2" "(2 :: int) \<le> 900"
    by simp_all
  have x: "\<bar>- (1 / 2 ^ 70) :: real\<bar> \<le> 2 powi 1022"
    using pow2_le [of "- 70" 1022] by (simp add: power_int_minus_divide)
  have e1: "wrap_position_ieee grid_4_ieee (Finite (- (1 / 2 ^ 70))) = Finite 4"
    by (simp add: ieee_eval grid_4_ieee_def rd_at)
  have e2: "(Finite 4 - x_min grid_4_ieee) * inv_dx grid_4_ieee = Finite 4"
    by (simp add: ieee_eval grid_4_ieee_def rd_at)
  have e3: "cell_index_ieee grid_4_ieee (Finite (- (1 / 2 ^ 70))) = Some 3"
    by (simp add: ieee_eval grid_4_ieee_def rd_at)
  show ?thesis
    using c h x e1 e2 e3 cell_index_ieee_safe [OF c h x] by blast
qed

subsection \<open>Periodic wrapping of indices\<close>

text \<open>
  The specification asks for \<open>wrap_index i = wrap_index (i + k * n)\<close> on every valid grid
  (C6).  On
  the grid with \<open>n = 2\<^sup>6\<^sup>4 - 2\<close> cells the conversion of \<open>n\<close> to \<open>std::ptrdiff_t\<close> is \<open>- 2\<close>;
  the indices \<open>- 2\<^sup>6\<^sup>3 + 1\<close> and \<open>2\<^sup>6\<^sup>3 - 1\<close> differ by \<open>n\<close> and are wrapped to
  \<open>2\<^sup>6\<^sup>4 - 3\<close> and to \<open>1\<close>.
\<close>

theorem wrap_index_large_grid_counterexample:
  "Grid_ctor 18446744073709551614 0 1 Periodic = Inr grid_wide \<and>
   sint (9223372036854775807 :: 64 word) =
     sint (- 9223372036854775807 :: 64 word) + 1 * int (unat (n_cells grid_wide)) \<and>
   wrap_index grid_wide (- 9223372036854775807) = Some 18446744073709551613 \<and>
   wrap_index grid_wide 9223372036854775807 = Some 1 \<and>
   wrap_index grid_wide 9223372036854775807 \<noteq> wrap_index grid_wide (- 9223372036854775807)"
proof -
  have "wrap_index grid_wide (- 9223372036854775807) = Some 18446744073709551613"
    by (simp add: grid_eval grid_wide_def)
  moreover have "wrap_index grid_wide 9223372036854775807 = Some 1"
    by (simp add: grid_eval grid_wide_def)
  moreover have "sint (9223372036854775807 :: 64 word) =
     sint (- 9223372036854775807 :: 64 word) + 1 * int (unat (n_cells grid_wide))"
    by (simp add: grid_wide_def)
  ultimately show ?thesis by (simp add: grid_wide_ctor)
qed

text \<open>
  C6.  For every constructed grid whose number of cells \<open>n\<close> is at most \<open>PTRDIFF_MAX\<close> and
  every index \<open>i\<close> of type \<open>std::ptrdiff_t\<close>, \<open>wrap_index i\<close> returns \<open>i mod n\<close>, a value in
  \<open>[0, n)\<close>; two indices that differ by a multiple of \<open>n\<close> are wrapped to the same cell.
\<close>

theorem wrap_index_periodic:
  assumes c: "Grid_ctor n lo hi bc = Inr g" and b: "int (unat n) \<le> PTRDIFF_MAX"
  shows "(\<exists>r. wrap_index g i = Some r \<and> unat r < unat n \<and> int (unat r) = sint i mod int (unat n)) \<and>
         (sint j = sint i + k * int (unat n) \<longrightarrow> wrap_index g j = wrap_index g i)"
proof -
  have v: "Grid_valid g" by (rule Grid_ctor_valid [OF c])
  have n: "n_cells g = n" using c by (auto simp: Grid_ctor_def Let_def split: if_splits)
  have b': "int (unat (n_cells g)) \<le> PTRDIFF_MAX" using b by (simp only: n)
  define N where "N = int (unat n)"
  have N0: "0 < N" using v unfolding Grid_valid_def n N_def by linarith
  have v0: "0 < unat (n_cells g)" using N0 by (simp only: n N_def of_nat_0_less_iff)
  have w: "wrap_index g i = Some (word_of_int (sint i mod N))" for i
    using wrap_index_mod [OF v0 b', of i] by (simp only: n N_def)
  have r: "unat (word_of_int (sint i mod N) :: 64 word) < unat n"
    using wrap_index_range [OF v0 b', of i] by (simp only: n N_def)
  have m: "0 \<le> sint i mod N" "sint i mod N < N" using N0 by simp_all
  have "N \<le> 2 ^ 63 - 1" using b by (simp only: N_def PTRDIFF_MAX_def)
  then have "sint i mod N < 2 ^ 64" using m(2) by simp
  then have "unat (word_of_int (sint i mod N) :: 64 word) = nat (sint i mod N)"
    using m by (intro unat_word_of_int_64) simp_all
  then have e: "int (unat (word_of_int (sint i mod N) :: 64 word)) = sint i mod N"
    using m by simp
  have "wrap_index g j = wrap_index g i" if "sint j = sint i + k * N"
    using that by (simp add: w)
  then show ?thesis using w [of i] r e unfolding N_def by blast
qed

theorem wrap_index_periodic_witness:
  "Grid_ctor 4 0 4 Periodic = Inr grid_4 \<and> int (unat (4 :: 64 word)) \<le> PTRDIFF_MAX \<and>
   sint (7 :: 64 word) = sint (- 1 :: 64 word) + 2 * int (unat (4 :: 64 word)) \<and>
   (\<exists>r. wrap_index grid_4 (- 1) = Some r \<and> unat r < unat (4 :: 64 word) \<and>
        int (unat r) = sint (- 1 :: 64 word) mod int (unat (4 :: 64 word))) \<and>
   wrap_index grid_4 7 = wrap_index grid_4 (- 1)"
proof -
  have c: "Grid_ctor 4 0 4 Periodic = Inr grid_4"
    by (simp add: Grid_ctor_def grid_4_def)
  have b: "int (unat (4 :: 64 word)) \<le> PTRDIFF_MAX" by (simp add: PTRDIFF_MAX_def)
  have s: "sint (7 :: 64 word) = sint (- 1 :: 64 word) + 2 * int (unat (4 :: 64 word))" by simp
  show ?thesis
    using c b s wrap_index_periodic [OF c b, of "- 1" 7 2] by blast
qed

section \<open>Properties of the particle container\<close>

subsection \<open>Auxiliary facts\<close>

lemma vector_reserve_cases:
  assumes "vector_reserve h a n = (h', r, a')"
  shows "elems a' = elems a"
    and "r = None \<Longrightarrow> n \<le> capacity a'"
    and "r \<noteq> None \<Longrightarrow> a' = a"
  using assms
  by (auto simp: vector_reserve_def split: if_splits prod.splits bool.splits)

lemma vector_resize_cases:
  assumes "vector_resize h a n val = (h', r, a')"
  shows "r = None \<Longrightarrow>
           elems a' = take n (elems a) @ replicate (n - vector_size a) val"
    and "r \<noteq> None \<Longrightarrow> a' = a"
  using assms
  by (auto simp: vector_resize_def vector_size_def Let_def split: if_splits prod.splits bool.splits)

lemma resize_length: "List.length (take n xs @ replicate (n - List.length xs) val) = n"
  by (simp add: min_def)

lemma vector_push_back_cases:
  assumes "vector_push_back h a val = (h', r, a')"
  shows "r = None \<Longrightarrow> elems a' = elems a @ [val]"
    and "r \<noteq> None \<Longrightarrow> a' = a"
  using assms
  by (auto simp: vector_push_back_def vector_size_def Let_def split: if_splits prod.splits bool.splits)

lemma vector_ctor_cases:
  assumes "vector_ctor h n val = (h', Inr a)"
  shows "elems a = replicate n val" and "capacity a = n"
  using assms
  by (auto simp: vector_ctor_def vector_empty_def split: if_splits prod.splits bool.splits)

lemma Particles_push_back_cases:
  assumes "Particles_push_back h p a b c = (h', r, p')"
  shows "r = None \<Longrightarrow>
           elems (x_vec p') = elems (x_vec p) @ [a] \<and>
           elems (v_vec p') = elems (v_vec p) @ [b] \<and>
           elems (f_vec p') = elems (f_vec p) @ [c]"
    and "r \<noteq> None \<Longrightarrow>
           f_vec p' = f_vec p \<and>
           (x_vec p' = x_vec p \<and> v_vec p' = v_vec p \<or>
            elems (x_vec p') = elems (x_vec p) @ [a] \<and> v_vec p' = v_vec p \<or>
            elems (x_vec p') = elems (x_vec p) @ [a] \<and>
            elems (v_vec p') = elems (v_vec p) @ [b])"
proof -
  obtain h1 r1 a1 where 1: "vector_push_back h (x_vec p) a = (h1, r1, a1)"
    by (metis prod_cases3)
  obtain h2 r2 a2 where 2: "vector_push_back h1 (v_vec p) b = (h2, r2, a2)"
    by (metis prod_cases3)
  obtain h3 r3 a3 where 3: "vector_push_back h2 (f_vec p) c = (h3, r3, a3)"
    by (metis prod_cases3)
  note c1 = vector_push_back_cases [OF 1]
  note c2 = vector_push_back_cases [OF 2]
  note c3 = vector_push_back_cases [OF 3]
  show "r = None \<Longrightarrow>
           elems (x_vec p') = elems (x_vec p) @ [a] \<and>
           elems (v_vec p') = elems (v_vec p) @ [b] \<and>
           elems (f_vec p') = elems (f_vec p) @ [c]"
    using assms c1 c2 c3
    by (cases r1; cases r2; cases r3) (auto simp: Particles_push_back_def 1 2 3)
  show "r \<noteq> None \<Longrightarrow>
           f_vec p' = f_vec p \<and>
           (x_vec p' = x_vec p \<and> v_vec p' = v_vec p \<or>
            elems (x_vec p') = elems (x_vec p) @ [a] \<and> v_vec p' = v_vec p \<or>
            elems (x_vec p') = elems (x_vec p) @ [a] \<and>
            elems (v_vec p') = elems (v_vec p) @ [b])"
    using assms c1 c2 c3
    by (cases r1; cases r2; cases r3) (auto simp: Particles_push_back_def 1 2 3)
qed

lemma Particles_resize_fill_cases:
  assumes "Particles_resize_fill h p n a b c = (h', None, p')"
  shows "elems (x_vec p') = take n (elems (x_vec p)) @ replicate (n - vector_size (x_vec p)) a"
    and "elems (v_vec p') = take n (elems (v_vec p)) @ replicate (n - vector_size (v_vec p)) b"
    and "elems (f_vec p') = take n (elems (f_vec p)) @ replicate (n - vector_size (f_vec p)) c"
proof -
  obtain h1 r1 a1 where 1: "vector_resize h (x_vec p) n a = (h1, r1, a1)"
    by (metis prod_cases3)
  obtain h2 r2 a2 where 2: "vector_resize h1 (v_vec p) n b = (h2, r2, a2)"
    by (metis prod_cases3)
  obtain h3 r3 a3 where 3: "vector_resize h2 (f_vec p) n c = (h3, r3, a3)"
    by (metis prod_cases3)
  note c1 = vector_resize_cases [OF 1]
  note c2 = vector_resize_cases [OF 2]
  note c3 = vector_resize_cases [OF 3]
  have r: "r1 = None \<and> r2 = None \<and> r3 = None \<and> p' = p\<lparr>x_vec := a1, v_vec := a2, f_vec := a3\<rparr>"
    using assms by (cases r1; cases r2; cases r3) (auto simp: Particles_resize_fill_def 1 2 3)
  show "elems (x_vec p') = take n (elems (x_vec p)) @ replicate (n - vector_size (x_vec p)) a"
    using r c1 by simp
  show "elems (v_vec p') = take n (elems (v_vec p)) @ replicate (n - vector_size (v_vec p)) b"
    using r c2 by simp
  show "elems (f_vec p') = take n (elems (f_vec p)) @ replicate (n - vector_size (f_vec p)) c"
    using r c3 by simp
qed

lemma Particles_reserve_cases:
  assumes "Particles_reserve h p n = (h', r, p')"
  shows "elems (x_vec p') = elems (x_vec p)"
    and "elems (v_vec p') = elems (v_vec p)"
    and "elems (f_vec p') = elems (f_vec p)"
    and "r = None \<Longrightarrow> n \<le> capacity (x_vec p')"
proof -
  obtain h1 r1 a1 where 1: "vector_reserve h (x_vec p) n = (h1, r1, a1)"
    by (metis prod_cases3)
  obtain h2 r2 a2 where 2: "vector_reserve h1 (v_vec p) n = (h2, r2, a2)"
    by (metis prod_cases3)
  obtain h3 r3 a3 where 3: "vector_reserve h2 (f_vec p) n = (h3, r3, a3)"
    by (metis prod_cases3)
  note c1 = vector_reserve_cases [OF 1]
  note c2 = vector_reserve_cases [OF 2]
  note c3 = vector_reserve_cases [OF 3]
  show "elems (x_vec p') = elems (x_vec p)"
    using assms c1(1) by (cases r1; cases r2; cases r3) (auto simp: Particles_reserve_def 1 2 3)
  show "elems (v_vec p') = elems (v_vec p)"
    using assms c2(1) by (cases r1; cases r2; cases r3) (auto simp: Particles_reserve_def 1 2 3)
  show "elems (f_vec p') = elems (f_vec p)"
    using assms c3(1) by (cases r1; cases r2; cases r3) (auto simp: Particles_reserve_def 1 2 3)
  show "r = None \<Longrightarrow> n \<le> capacity (x_vec p')"
    using assms c1(2) by (cases r1; cases r2; cases r3) (auto simp: Particles_reserve_def 1 2 3)
qed

lemma Particles_ctor_fill_cases:
  assumes "Particles_ctor_fill h n a b c = (h', Inr p)"
  shows "elems (x_vec p) = replicate n a" and "elems (v_vec p) = replicate n b"
    and "elems (f_vec p) = replicate n c"
proof -
  obtain h1 r1 where 1: "vector_ctor h n a = (h1, r1)" by (metis prod.exhaust)
  obtain h2 r2 where 2: "vector_ctor h1 n b = (h2, r2)" by (metis prod.exhaust)
  obtain h3 r3 where 3: "vector_ctor h2 n c = (h3, r3)" by (metis prod.exhaust)
  obtain a1 a2 a3 where r: "r1 = Inr a1" "r2 = Inr a2" "r3 = Inr a3"
    and p: "p = \<lparr>x_vec = a1, v_vec = a2, f_vec = a3\<rparr>"
    using assms by (cases r1; cases r2; cases r3) (auto simp: Particles_ctor_fill_def 1 2 3)
  show "elems (x_vec p) = replicate n a"
    using vector_ctor_cases(1) [OF 1 [unfolded r]] p by simp
  show "elems (v_vec p) = replicate n b"
    using vector_ctor_cases(1) [OF 2 [unfolded r]] p by simp
  show "elems (f_vec p) = replicate n c"
    using vector_ctor_cases(1) [OF 3 [unfolded r]] p by simp
qed

lemmas particles_eval =
  Particles_push_back_def Particles_resize_def Particles_resize_fill_def Particles_reserve_def
  Particles_ctor_capacity_def Particles_ctor_fill_def Particles_default_def Particles_size_def
  Particles_capacity_def Particles_empty_def Particles_synchronized_def Particles_clear_def
  Particles_pop_back_def vector_push_back_def vector_resize_def vector_reserve_def
  vector_ctor_def vector_clear_def vector_pop_back_def vector_empty_def vector_size_def
  max_size_def Let_def one_particle_def two_particles_def
  uniform_particles_def

lemma ev_ctor_capacity: "Particles_ctor_capacity [] 100 = ([], Inr (uniform_particles 0 100 0 0 0))"
  by (simp add: particles_eval)

lemma ev_ctor_fill: "Particles_ctor_fill [] 2 0 1 1 = ([], Inr (uniform_particles 2 2 0 1 1))"
  by (simp add: particles_eval)

lemma ev_reserve:
  "Particles_reserve [] one_particle 3 =
     ([], None, \<lparr> x_vec = \<lparr> elems = [1], capacity = 3 \<rparr>, v_vec = \<lparr> elems = [2], capacity = 3 \<rparr>,
                  f_vec = \<lparr> elems = [3], capacity = 3 \<rparr> \<rparr>)"
  by (simp add: particles_eval)

lemma ev_resize:
  "Particles_resize [] one_particle 2 =
     ([], None, \<lparr> x_vec = \<lparr> elems = [1, 0], capacity = 2 \<rparr>, v_vec = \<lparr> elems = [2, 0], capacity = 2 \<rparr>,
                  f_vec = \<lparr> elems = [3, 0], capacity = 2 \<rparr> \<rparr>)"
  by (simp add: particles_eval)

lemma ev_resize_fill:
  "Particles_resize_fill [] one_particle 0 7 8 9 = ([], None, uniform_particles 0 1 7 8 9)"
  by (simp add: particles_eval)

lemma ev_push_back:
  "Particles_push_back [] one_particle 4 5 6 =
     ([], None, \<lparr> x_vec = \<lparr> elems = [1, 4], capacity = 2 \<rparr>, v_vec = \<lparr> elems = [2, 5], capacity = 2 \<rparr>,
                  f_vec = \<lparr> elems = [3, 6], capacity = 2 \<rparr> \<rparr>)"
  by (simp add: particles_eval)

lemma ev_sync: "Particles_synchronized one_particle" "\<not> Particles_empty one_particle"
  by (simp_all add: particles_eval)

lemma advance_in_order_nth:
  assumes "distinct order" and "\<forall>i\<in>set order. i < List.length x" and "List.length v = List.length x"
  shows "\<exists>x'. advance_in_order v dt x order = Some x' \<and> List.length x' = List.length x \<and>
           (\<forall>j<List.length x. x' ! j = (if j \<in> set order then x ! j + v ! j * dt else x ! j))"
  using assms
proof (induction order arbitrary: x)
  case Nil
  then show ?case by simp
next
  case (Cons i order)
  define y where "y = x[i := x ! i + v ! i * dt]"
  have i: "i < List.length x" "i < List.length v" using Cons.prems by simp_all
  have st: "advance_step v dt x i = Some y" using i by (simp add: advance_step_def y_def)
  have ly: "List.length y = List.length x" by (simp add: y_def)
  have "\<exists>x'. advance_in_order v dt y order = Some x' \<and> List.length x' = List.length y \<and>
           (\<forall>j<List.length y. x' ! j = (if j \<in> set order then y ! j + v ! j * dt else y ! j))"
    using Cons.prems by (intro Cons.IH) (simp_all add: ly)
  then obtain x' where x': "advance_in_order v dt y order = Some x'"
    and lx: "List.length x' = List.length y"
    and nth: "\<forall>j<List.length y. x' ! j = (if j \<in> set order then y ! j + v ! j * dt else y ! j)"
    by blast
  have ni: "i \<notin> set order" using Cons.prems(1) by simp
  have "x' ! j = (if j \<in> set (i # order) then x ! j + v ! j * dt else x ! j)"
    if j: "j < List.length x" for j
  proof (cases "j = i")
    case True
    then show ?thesis using nth j ni ly by (simp add: y_def)
  next
    case False
    then show ?thesis using nth j ly by (simp add: y_def)
  qed
  then show ?case using x' lx ly st by simp
qed

lemma advance_loop_in_order:
  "advance_loop v dt n x i = advance_in_order v dt x [i..<n]"
proof (induction v dt n x i rule: advance_loop.induct)
  case (1 v dt n x i)
  show ?case
  proof (cases "i < n")
    case True
    then have u: "[i..<n] = i # [i + 1..<n]" by (simp add: upt_conv_Cons)
    show ?thesis
      using True 1 by (subst advance_loop.simps) (simp add: u split: option.splits)
  next
    case False
    then show ?thesis by (subst advance_loop.simps) simp
  qed
qed

lemma list_eq_nth:
  "List.length xs = List.length ys \<Longrightarrow> (\<forall>j<List.length xs. xs ! j = ys ! j) \<Longrightarrow> xs = ys"
  by (simp add: list_eq_iff_nth_eq)

subsection \<open>Appending a sample\<close>

text \<open>
  The specification asks that a \<open>push_back\<close> that fails to allocate leaves none of the
  three sequences updated (C7).  The member appends to \<open>x_\<close>, then to \<open>v_\<close>, then to \<open>f_\<close>,
  and nothing undoes an append that has been made.  On the empty container, when the first allocation
  succeeds and the second fails, \<open>std::bad_alloc\<close> leaves the member with one position stored
  and no velocity and no weight.
\<close>

theorem push_back_partial_counterexample:
  "fst (snd (Particles_push_back [True, False] Particles_default 1 2 3)) = Some bad_alloc \<and>
   elems (x_vec (snd (snd (Particles_push_back [True, False] Particles_default 1 2 3)))) = [1] \<and>
   elems (v_vec (snd (snd (Particles_push_back [True, False] Particles_default 1 2 3)))) = [] \<and>
   elems (f_vec (snd (snd (Particles_push_back [True, False] Particles_default 1 2 3)))) = [] \<and>
   elems (x_vec Particles_default) = [] \<and>
   snd (snd (Particles_push_back [True, False] Particles_default 1 2 3)) \<noteq> Particles_default"
  by (simp add: particles_eval)

text \<open>
  C7.  A \<open>push_back\<close> that returns appends the triple: each of the three sequences is the
  former sequence followed by the new value, and the size grows by one.  A \<open>push_back\<close> that
  throws leaves the weights as they were, and either nothing is changed, or the position
  alone is appended, or the position and the velocity are appended.
\<close>

theorem push_back_appends:
  assumes "Particles_push_back h p a b c = (h', r, p')"
  shows "(r = None \<longrightarrow>
            elems (x_vec p') = elems (x_vec p) @ [a] \<and>
            elems (v_vec p') = elems (v_vec p) @ [b] \<and>
            elems (f_vec p') = elems (f_vec p) @ [c] \<and>
            Particles_size p' = Particles_size p + 1) \<and>
         (r \<noteq> None \<longrightarrow>
            f_vec p' = f_vec p \<and>
            (x_vec p' = x_vec p \<and> v_vec p' = v_vec p \<or>
             elems (x_vec p') = elems (x_vec p) @ [a] \<and> v_vec p' = v_vec p \<or>
             elems (x_vec p') = elems (x_vec p) @ [a] \<and>
             elems (v_vec p') = elems (v_vec p) @ [b]))"
  using Particles_push_back_cases [OF assms]
  by (simp add: Particles_size_def vector_size_def)

theorem push_back_appends_witness:
  "Particles_push_back [] Particles_default 1 2 3 = ([], None, one_particle) \<and>
   elems (x_vec one_particle) = elems (x_vec Particles_default) @ [1] \<and>
   elems (v_vec one_particle) = elems (v_vec Particles_default) @ [2] \<and>
   elems (f_vec one_particle) = elems (f_vec Particles_default) @ [3] \<and>
   Particles_size one_particle = Particles_size Particles_default + 1 \<and>
   Particles_push_back [True, False] Particles_default 1 2 3 =
     ([], Some bad_alloc, Particles_default\<lparr> x_vec := \<lparr> elems = [1], capacity = 1 \<rparr> \<rparr>) \<and>
   f_vec (Particles_default\<lparr> x_vec := \<lparr> elems = [1], capacity = 1 \<rparr> \<rparr>) =
     f_vec Particles_default"
proof -
  have e: "Particles_push_back [] Particles_default 1 2 3 = ([], None, one_particle)"
    by (simp add: particles_eval)
  have f: "Particles_push_back [True, False] Particles_default 1 2 3 =
     ([], Some bad_alloc, Particles_default\<lparr> x_vec := \<lparr> elems = [1], capacity = 1 \<rparr> \<rparr>)"
    by (simp add: particles_eval)
  show ?thesis
    using e f push_back_appends [OF e] push_back_appends [OF f] by simp
qed

subsection \<open>Synchronised lengths\<close>

text \<open>
  The specification asks for equal lengths after every public operation (C8).  A \<open>resize\<close>
  whose second allocation fails throws \<open>std::bad_alloc\<close> after the positions have been resized and
  before the velocities are: the container it leaves has one position and no velocity.
\<close>

theorem resize_partial_counterexample:
  "Particles_synchronized Particles_default \<and>
   fst (snd (Particles_resize [True, False] Particles_default 1)) = Some bad_alloc \<and>
   \<not> Particles_synchronized (snd (snd (Particles_resize [True, False] Particles_default 1)))"
  by (simp add: particles_eval)

text \<open>
  C8.  The three sequences have one length, which is \<open>size()\<close>, in the default constructed
  container and after every constructor that returns; and for a container with
  synchronised lengths, after \<open>reserve\<close> (whether it returns or throws), after a \<open>resize\<close> of
  either overload that returns, after \<open>clear\<close>, after a \<open>push_back\<close> that returns, and after
  \<open>pop_back\<close> on a container that is not empty.
\<close>

theorem length_synchronized:
  "Particles_synchronized Particles_default \<and>
   (Particles_ctor_capacity hA nA = (hA', Inr qA) \<longrightarrow> Particles_synchronized qA) \<and>
   (Particles_ctor_fill hB nB xB vB fB = (hB', Inr qB) \<longrightarrow>
      Particles_synchronized qB \<and> Particles_size qB = nB) \<and>
   (Particles_synchronized p \<longrightarrow>
      (Particles_reserve hC p nC = (hC', rC, pC) \<longrightarrow>
         Particles_synchronized pC \<and> Particles_size pC = Particles_size p) \<and>
      (Particles_resize hD p nD = (hD', None, pD) \<longrightarrow>
         Particles_synchronized pD \<and> Particles_size pD = nD) \<and>
      (Particles_resize_fill hE p nE xE vE fE = (hE', None, pE) \<longrightarrow>
         Particles_synchronized pE \<and> Particles_size pE = nE) \<and>
      Particles_synchronized (Particles_clear p) \<and> Particles_size (Particles_clear p) = 0 \<and>
      (Particles_push_back hF p xF vF fF = (hF', None, pF) \<longrightarrow>
         Particles_synchronized pF \<and> Particles_size pF = Particles_size p + 1) \<and>
      (\<not> Particles_empty p \<longrightarrow>
         (\<exists>p'. Particles_pop_back p = Some p' \<and> Particles_synchronized p' \<and>
               Particles_size p' = Particles_size p - 1)))"
proof (intro conjI impI)
  show "Particles_synchronized Particles_default"
    by (simp add: Particles_synchronized_def Particles_default_def vector_size_def vector_empty_def)
next
  assume "Particles_ctor_capacity hA nA = (hA', Inr qA)"
  then have "Particles_reserve hA Particles_default nA = (hA', None, qA)"
    by (auto simp: Particles_ctor_capacity_def split: prod.splits option.splits)
  from Particles_reserve_cases(1-3) [OF this]
  show "Particles_synchronized qA"
    by (simp add: Particles_synchronized_def Particles_default_def vector_size_def vector_empty_def)
next
  assume c: "Particles_ctor_fill hB nB xB vB fB = (hB', Inr qB)"
  from Particles_ctor_fill_cases [OF c]
  show "Particles_synchronized qB" and "Particles_size qB = nB"
    by (simp_all add: Particles_synchronized_def Particles_size_def vector_size_def)
next
  assume "Particles_synchronized p" and c: "Particles_reserve hC p nC = (hC', rC, pC)"
  with Particles_reserve_cases(1-3) [OF c]
  show "Particles_synchronized pC" and "Particles_size pC = Particles_size p"
    by (simp_all add: Particles_synchronized_def Particles_size_def vector_size_def)
next
  assume c: "Particles_resize hD p nD = (hD', None, pD)"
  then have "Particles_resize_fill hD p nD 0 0 0 = (hD', None, pD)"
    by (simp add: Particles_resize_def)
  from Particles_resize_fill_cases [OF this]
  show "Particles_synchronized pD" and "Particles_size pD = nD"
    by (simp_all only: Particles_synchronized_def Particles_size_def vector_size_def
        resize_length simp_thms)
next
  assume c: "Particles_resize_fill hE p nE xE vE fE = (hE', None, pE)"
  from Particles_resize_fill_cases [OF c]
  show "Particles_synchronized pE" and "Particles_size pE = nE"
    by (simp_all only: Particles_synchronized_def Particles_size_def vector_size_def
        resize_length simp_thms)
next
  show "Particles_synchronized (Particles_clear p)" and "Particles_size (Particles_clear p) = 0"
    by (simp_all add: Particles_synchronized_def Particles_size_def vector_size_def
        Particles_clear_def vector_clear_def)
next
  assume s: "Particles_synchronized p" and c: "Particles_push_back hF p xF vF fF = (hF', None, pF)"
  from Particles_push_back_cases(1) [OF c] s
  show "Particles_synchronized pF" and "Particles_size pF = Particles_size p + 1"
    by (simp_all add: Particles_synchronized_def Particles_size_def vector_size_def)
next
  assume s: "Particles_synchronized p" and e: "\<not> Particles_empty p"
  from s e have "elems (x_vec p) \<noteq> []" "elems (v_vec p) \<noteq> []" "elems (f_vec p) \<noteq> []"
    by (auto simp: Particles_synchronized_def Particles_empty_def vector_size_def)
  with s e show "\<exists>p'. Particles_pop_back p = Some p' \<and> Particles_synchronized p' \<and>
               Particles_size p' = Particles_size p - 1"
    by (simp add: Particles_pop_back_def vector_pop_back_def Particles_synchronized_def
        Particles_size_def vector_size_def)
qed

theorem length_synchronized_witness:
  "Particles_ctor_capacity [] 100 = ([], Inr (uniform_particles 0 100 0 0 0)) \<and>
   Particles_synchronized (uniform_particles 0 100 0 0 0) \<and>
   Particles_ctor_fill [] 2 0 1 1 = ([], Inr (uniform_particles 2 2 0 1 1)) \<and>
   Particles_synchronized (uniform_particles 2 2 0 1 1) \<and>
   Particles_size (uniform_particles 2 2 0 1 1) = 2 \<and>
   Particles_synchronized one_particle \<and> \<not> Particles_empty one_particle \<and>
   Particles_synchronized (snd (snd (Particles_reserve [] one_particle 3))) \<and>
   fst (snd (Particles_resize [] one_particle 2)) = None \<and>
   Particles_synchronized (snd (snd (Particles_resize [] one_particle 2))) \<and>
   Particles_size (snd (snd (Particles_resize [] one_particle 2))) = 2 \<and>
   fst (snd (Particles_resize_fill [] one_particle 0 7 8 9)) = None \<and>
   Particles_synchronized (snd (snd (Particles_resize_fill [] one_particle 0 7 8 9))) \<and>
   Particles_size (snd (snd (Particles_resize_fill [] one_particle 0 7 8 9))) = 0 \<and>
   fst (snd (Particles_push_back [] one_particle 4 5 6)) = None \<and>
   Particles_synchronized (snd (snd (Particles_push_back [] one_particle 4 5 6))) \<and>
   Particles_size (snd (snd (Particles_push_back [] one_particle 4 5 6))) =
     Particles_size one_particle + 1 \<and>
   (\<exists>p'. Particles_pop_back one_particle = Some p' \<and> Particles_synchronized p' \<and>
         Particles_size p' = Particles_size one_particle - 1)"
proof -
  note t = length_synchronized [where p = one_particle
      and hA = "[]" and nA = 100 and hA' = "[]" and qA = "uniform_particles 0 100 0 0 0"
      and hB = "[]" and nB = 2 and xB = 0 and vB = 1 and fB = 1 and hB' = "[]"
      and qB = "uniform_particles 2 2 0 1 1"
      and hC = "[]" and nC = 3 and hC' = "[]" and rC = None
      and pC = "snd (snd (Particles_reserve [] one_particle 3))"
      and hD = "[]" and nD = 2 and hD' = "[]"
      and pD = "snd (snd (Particles_resize [] one_particle 2))"
      and hE = "[]" and nE = 0 and xE = 7 and vE = 8 and fE = 9 and hE' = "[]"
      and pE = "snd (snd (Particles_resize_fill [] one_particle 0 7 8 9))"
      and hF = "[]" and xF = 4 and vF = 5 and fF = 6 and hF' = "[]"
      and pF = "snd (snd (Particles_push_back [] one_particle 4 5 6))"]
  show ?thesis
    using t ev_ctor_capacity ev_ctor_fill ev_sync ev_reserve ev_resize ev_resize_fill ev_push_back
    by simp
qed

subsection \<open>Free streaming\<close>

text \<open>
  C9.  On a container with synchronised lengths \<open>advance_positions\<close> returns; every position
  \<open>x[i]\<close> becomes \<open>x[i] + v[i] * dt\<close>; velocities, weights, the size and the capacity are
  unchanged; and running the loop body once for each index in any other order gives the
  same container.
\<close>

theorem advance_positions_effect:
  assumes s: "Particles_synchronized p"
  shows "\<exists>p'. advance_positions p dt = Some p' \<and>
           Particles_size p' = Particles_size p \<and>
           (\<forall>i<Particles_size p.
              elems (x_vec p') ! i = elems (x_vec p) ! i + elems (v_vec p) ! i * dt) \<and>
           capacity (x_vec p') = capacity (x_vec p) \<and>
           v_vec p' = v_vec p \<and> f_vec p' = f_vec p \<and>
           (\<forall>order. distinct order \<and> set order = {..<Particles_size p} \<longrightarrow>
              advance_positions_in_order p dt order = Some p')"
proof -
  define x where "x = elems (x_vec p)"
  define v where "v = elems (v_vec p)"
  define n where "n = Particles_size p"
  have lx: "List.length x = n" by (simp add: x_def n_def Particles_size_def vector_size_def)
  have lv: "List.length v = List.length x"
    using s by (simp add: x_def v_def Particles_synchronized_def vector_size_def)
  have ord: "\<exists>x'. advance_in_order v dt x order = Some x' \<and> List.length x' = n \<and>
           (\<forall>j<n. x' ! j = x ! j + v ! j * dt)"
    if "distinct order" and "set order = {..<n}" for order
  proof -
    have "\<forall>i\<in>set order. i < List.length x" using that lx by simp
    from advance_in_order_nth [OF that(1) this lv, of dt]
    show ?thesis using that(2) lx by auto
  qed
  have "distinct [0..<n]" and "set [0..<n] = {..<n}" by auto
  from ord [OF this] obtain x' where x': "advance_in_order v dt x [0..<n] = Some x'"
    and lx': "List.length x' = n" and nth: "\<forall>j<n. x' ! j = x ! j + v ! j * dt"
    by blast
  define p' where "p' = p\<lparr> x_vec := (x_vec p)\<lparr> elems := x' \<rparr> \<rparr>"
  have run: "advance_positions p dt = Some p'"
    unfolding advance_positions_def x_def [symmetric] v_def [symmetric] n_def [symmetric]
      advance_loop_in_order x' p'_def by simp
  have any: "advance_positions_in_order p dt order = Some p'"
    if "distinct order \<and> set order = {..<n}" for order
  proof -
    from that ord [of order] obtain y where y: "advance_in_order v dt x order = Some y"
      and ly: "List.length y = n" and ny: "\<forall>j<n. y ! j = x ! j + v ! j * dt"
      by blast
    have "y = x'" using ly lx' ny nth by (intro list_eq_nth) simp_all
    then show ?thesis
      unfolding advance_positions_in_order_def x_def [symmetric] v_def [symmetric] y p'_def
      by simp
  qed
  have "Particles_size p' = n" by (simp add: p'_def Particles_size_def vector_size_def lx')
  moreover have "\<forall>i<n. elems (x_vec p') ! i = x ! i + v ! i * dt"
    using nth by (simp add: p'_def)
  moreover have "capacity (x_vec p') = capacity (x_vec p)" "v_vec p' = v_vec p" "f_vec p' = f_vec p"
    by (simp_all add: p'_def)
  ultimately show ?thesis
    using run any unfolding n_def x_def v_def by blast
qed

theorem advance_positions_effect_witness:
  "Particles_synchronized two_particles \<and>
   distinct [1, 0 :: nat] \<and> set [1, 0 :: nat] = {..<Particles_size two_particles} \<and>
   (\<exists>p'. advance_positions two_particles (1 / 2) = Some p' \<and>
         elems (x_vec p') ! 0 = 1 / 2 \<and> elems (x_vec p') ! 1 = 1 \<and>
         v_vec p' = v_vec two_particles \<and> f_vec p' = f_vec two_particles \<and>
         advance_positions_in_order two_particles (1 / 2) [1, 0] = Some p')"
proof -
  have s: "Particles_synchronized two_particles"
    by (simp add: Particles_synchronized_def two_particles_def vector_size_def)
  have n: "Particles_size two_particles = 2"
    by (simp add: Particles_size_def two_particles_def vector_size_def)
  have d: "distinct [1, 0 :: nat] \<and> set [1, 0 :: nat] = {..<Particles_size two_particles}"
    unfolding n by auto
  from advance_positions_effect [OF s, of "1 / 2"]
  obtain p' where a: "advance_positions two_particles (1 / 2) = Some p'"
    and x: "\<forall>i<Particles_size two_particles.
              elems (x_vec p') ! i =
              elems (x_vec two_particles) ! i + elems (v_vec two_particles) ! i * (1 / 2)"
    and f: "v_vec p' = v_vec two_particles" "f_vec p' = f_vec two_particles"
    and o: "\<forall>order. distinct order \<and> set order = {..<Particles_size two_particles} \<longrightarrow>
              advance_positions_in_order two_particles (1 / 2) order = Some p'"
    by blast
  have "elems (x_vec p') ! 0 = 1 / 2" using x [rule_format, of 0] n by (simp add: two_particles_def)
  moreover have "elems (x_vec p') ! 1 = 1" using x [rule_format, of 1] n by (simp add: two_particles_def)
  moreover have "advance_positions_in_order two_particles (1 / 2) [1, 0] = Some p'"
    using o d by blast
  ultimately show ?thesis using s d a f by blast
qed

subsection \<open>The capacity constructor\<close>

text \<open>
  C10.  \<open>Particles(n)\<close>, when it returns, gives an empty container: its size is zero,
  \<open>empty()\<close> holds and the capacity is at least \<open>n\<close>; it does return for every \<open>n\<close> up to
  \<open>max_size\<close> when the allocations succeed.  \<open>Particles(m, x0, v0, f0)\<close>, when it returns,
  holds \<open>m\<close> samples, each the given triple.
\<close>

theorem capacity_constructor_empty:
  "(Particles_ctor_capacity h n = (h', Inr p) \<longrightarrow>
      Particles_size p = 0 \<and> Particles_empty p \<and> n \<le> Particles_capacity p \<and>
      elems (x_vec p) = [] \<and> elems (v_vec p) = [] \<and> elems (f_vec p) = []) \<and>
   (n \<le> max_size \<longrightarrow> (\<exists>p. Particles_ctor_capacity [] n = ([], Inr p))) \<and>
   (Particles_ctor_fill k m a b c = (k', Inr q) \<longrightarrow>
      Particles_size q = m \<and> (Particles_empty q \<longleftrightarrow> m = 0) \<and>
      elems (x_vec q) = replicate m a \<and> elems (v_vec q) = replicate m b \<and>
      elems (f_vec q) = replicate m c)"
proof (intro conjI impI)
  assume "Particles_ctor_capacity h n = (h', Inr p)"
  then have r: "Particles_reserve h Particles_default n = (h', None, p)"
    by (auto simp: Particles_ctor_capacity_def split: prod.splits option.splits)
  from Particles_reserve_cases [OF r]
  show "Particles_size p = 0" and "Particles_empty p" and "n \<le> Particles_capacity p"
    and "elems (x_vec p) = []" and "elems (v_vec p) = []" and "elems (f_vec p) = []"
    by (simp_all add: Particles_size_def Particles_empty_def Particles_capacity_def
        Particles_default_def vector_size_def vector_empty_def)
next
  assume "n \<le> max_size"
  then show "\<exists>p. Particles_ctor_capacity [] n = ([], Inr p)"
    by (simp add: Particles_ctor_capacity_def Particles_reserve_def vector_reserve_def
        Particles_default_def vector_empty_def)
next
  assume c: "Particles_ctor_fill k m a b c = (k', Inr q)"
  from Particles_ctor_fill_cases [OF c]
  show "Particles_size q = m" and "Particles_empty q \<longleftrightarrow> m = 0"
    and "elems (x_vec q) = replicate m a" and "elems (v_vec q) = replicate m b"
    and "elems (f_vec q) = replicate m c"
    by (simp_all add: Particles_size_def Particles_empty_def vector_size_def)
qed

theorem capacity_constructor_empty_witness:
  "Particles_ctor_capacity [] 100 = ([], Inr (uniform_particles 0 100 0 0 0)) \<and>
   (100 :: nat) \<le> max_size \<and>
   Particles_ctor_fill [] 2 0 1 1 = ([], Inr (uniform_particles 2 2 0 1 1)) \<and>
   Particles_size (uniform_particles 0 100 0 0 0) = 0 \<and>
   Particles_empty (uniform_particles 0 100 0 0 0) \<and>
   100 \<le> Particles_capacity (uniform_particles 0 100 0 0 0) \<and>
   Particles_size (uniform_particles 2 2 0 1 1) = 2 \<and>
   \<not> Particles_empty (uniform_particles 2 2 0 1 1)"
proof -
  have a: "Particles_ctor_capacity [] 100 = ([], Inr (uniform_particles 0 100 0 0 0))"
    by (simp add: particles_eval)
  have b: "Particles_ctor_fill [] 2 0 1 1 = ([], Inr (uniform_particles 2 2 0 1 1))"
    by (simp add: particles_eval)
  have m: "(100 :: nat) \<le> max_size" by (simp add: max_size_def)
  show ?thesis
    using a b m
      capacity_constructor_empty [where h = "[]" and n = 100 and h' = "[]"
        and p = "uniform_particles 0 100 0 0 0" and k = "[]" and m = 2 and a = 0 and b = 1
        and c = 1 and k' = "[]" and q = "uniform_particles 2 2 0 1 1"]
    by simp
qed

section \<open>Properties of the field and of the deposition\<close>

subsection \<open>Auxiliary facts\<close>












subsection \<open>Linear interpolation\<close>





subsection \<open>Deposition\<close>



end
